theory Spec2Isabelle
  imports Main "HOL-Library.Multiset" "HOL-Library.Sublist"
begin

section \<open>Python values\<close>

text \<open>
  The bot handles decoded JSON throughout: the search response, the completion response
  and the article dictionaries it builds from them. A decoded value is one of Python's
  \<open>None\<close>, \<open>bool\<close>, number, \<open>str\<close>, \<open>list\<close> or \<open>dict\<close>. A dictionary is an association
  list read with \<open>map_of\<close>; the code only ever tests a number for truth, so a number is
  an integer here and is true when it is not zero.
\<close>

datatype json =
    JNull
  | JBool bool
  | JNum int
  | JStr string
  | JArr "json list"
  | JObj "(string \<times> json) list"

datatype py_error =
    AttributeError
  | TypeError
  | KeyError
  | IndexError
  | ValueError

text \<open>Truth of a value, as \<open>if v:\<close>, \<open>v or d\<close> and \<open>not v\<close> read it.\<close>

fun truthy :: "json \<Rightarrow> bool" where
  "truthy JNull = False"
| "truthy (JBool b) = b"
| "truthy (JNum n) = (n \<noteq> 0)"
| "truthy (JStr s) = (s \<noteq> [])"
| "truthy (JArr xs) = (xs \<noteq> [])"
| "truthy (JObj kvs) = (kvs \<noteq> [])"

text \<open>\<open>a or b\<close>.\<close>

definition py_or :: "json \<Rightarrow> json \<Rightarrow> json" where
  "py_or a b = (if truthy a then a else b)"

text \<open>\<open>d.get(k)\<close> and \<open>d.get(k, default)\<close> on a dictionary.\<close>

definition dict_get :: "(string \<times> json) list \<Rightarrow> string \<Rightarrow> json" where
  "dict_get d k = (case map_of d k of None \<Rightarrow> JNull | Some v \<Rightarrow> v)"

definition dict_get_default :: "(string \<times> json) list \<Rightarrow> string \<Rightarrow> json \<Rightarrow> json" where
  "dict_get_default d k dflt = (case map_of d k of None \<Rightarrow> dflt | Some v \<Rightarrow> v)"

text \<open>
  A character of a string stands for the code point of that number, so the strings here
  are Python's strings over the code points 0 to 255. \<open>s.strip()\<close> removes leading and
  trailing whitespace; among these code points Python counts as whitespace the blank (32),
  the control characters 9 to 13 and 28 to 31, the next-line character U+0085 (133) and
  the no-break space U+00A0 (160).
\<close>

definition is_space :: "char \<Rightarrow> bool" where
  "is_space c =
     (let n = (of_char c :: nat)
      in n = 32 \<or> (9 \<le> n \<and> n \<le> 13) \<or> (28 \<le> n \<and> n \<le> 31) \<or> n = 133 \<or> n = 160)"

definition strip :: "string \<Rightarrow> string" where
  "strip s = rev (dropWhile is_space (rev (dropWhile is_space s)))"

text \<open>
  \<open>(d.get(k) or "").strip()\<close>: a missing or false entry reads as the empty string; any
  other value that is not a string has no \<open>strip\<close> and raises \<open>AttributeError\<close>.
\<close>

definition get_stripped :: "json \<Rightarrow> py_error + string" where
  "get_stripped v =
     (case py_or v (JStr []) of
        JStr s \<Rightarrow> Inr (strip s)
      | _ \<Rightarrow> Inl AttributeError)"

text \<open>\<open>s.lower()\<close>: among the code points 0 to 255 the capital letters are 65 to 90 and
  192 to 222 without the multiplication sign 215, and each has its small letter 32
  higher.\<close>

definition lower_char :: "char \<Rightarrow> char" where
  "lower_char c =
     (let n = (of_char c :: nat)
      in if (65 \<le> n \<and> n \<le> 90) \<or> (192 \<le> n \<and> n \<le> 222 \<and> n \<noteq> 215)
         then char_of (n + 32) else c)"

definition lower :: "string \<Rightarrow> string" where
  "lower s = map lower_char s"

section \<open>Configuration (config.py)\<close>

text \<open>
  Every setting is read from the environment with \<open>os.getenv\<close>, so it is absent
  (\<open>None\<close>) or a string; the channel identifiers are converted with \<open>int\<close> when present.
\<close>

record config =
  DISCORD_TOKEN :: "string option"
  ADMIN_CHANNEL_ID :: "int option"
  POST_CHANNEL_ID :: "int option"
  NEWS_API_KEY :: "string option"
  LMSTUDIO_BASE_URL :: "string option"
  LMSTUDIO_MODEL :: "string option"
  LMSTUDIO_API_KEY :: "string option"
  LM_USE_TOOLS :: bool

text \<open>\<open>not s\<close> for an optional string: absent or empty.\<close>

definition unset :: "string option \<Rightarrow> bool" where
  "unset s = (case s of None \<Rightarrow> True | Some t \<Rightarrow> t = [])"

text \<open>
  The messages the program prints for a configuration error: the lines of \<open>ensure_token\<close>
  that begin \<open>ERROR: DISCORD_TOKEN is not set\<close>; the line of \<open>ensure_required\<close> that begins
  \<open>ERROR: Missing required config keys:\<close> and lists the keys; and the line of
  \<open>fetch_article\<close> that begins \<open>ERROR: NEWS_API_KEY is not set\<close>.
\<close>

datatype diagnostic =
    Token_not_set
  | Missing_config_keys "string list"
  | News_key_not_set

section \<open>The outside world\<close>

text \<open>
  A request made with \<open>requests\<close> either raises (a \<open>ConnectionError\<close>, or any other
  exception such as a timeout) or returns a response with a status code and a body;
  the body is absent when it is not JSON, in which case \<open>r.json()\<close> raises.
\<close>

datatype http_result =
    RaisesConnectionError
  | RaisesOther
  | Response nat "json option"

text \<open>\<open>r.raise_for_status()\<close> raises for the status codes 400 to 599.\<close>

definition raise_for_status :: "nat \<Rightarrow> bool" where
  "raise_for_status st = (400 \<le> st \<and> st < 600)"

text \<open>
  The body of a chat-completion request, as far as the three requests of the
  summarizer differ: temperatures are in tenths.
\<close>

record payload =
  p_model :: string
  p_system :: string
  p_user :: string
  p_temperature :: nat
  p_max_tokens :: nat
  p_response_format :: bool
  p_tools :: bool

text \<open>
  Everything a call reads from outside the process: the search service by query term,
  the completion service by request body and its model list, \<open>json.loads\<close> (absent
  where it raises), and the numbers \<open>random.shuffle\<close> draws, by position.
\<close>

record world =
  search :: "string \<Rightarrow> http_result"
  models_listing :: http_result
  post :: "payload \<Rightarrow> http_result"
  json_loads :: "string \<Rightarrow> json option"
  randbelow :: "nat \<Rightarrow> nat"

section \<open>The summarizer adapter (lmstudio_helpers.py)\<close>

text \<open>
  \<open>lmstudio_models\<close> lists the model identifiers the completion service reports. Its
  whole body is inside \<open>try\<close>/\<open>except Exception\<close>, so every failure, an absent base URL
  included, yields the empty list.
\<close>

fun model_id :: "json \<Rightarrow> string list" where
  "model_id (JObj m) = (case dict_get m ''id'' of JStr s \<Rightarrow> [s] | _ \<Rightarrow> [])"
| "model_id _ = []"

definition lmstudio_models :: "config \<Rightarrow> world \<Rightarrow> string list" where
  "lmstudio_models cfg w =
     (case LMSTUDIO_BASE_URL cfg of
        None \<Rightarrow> []
      | Some _ \<Rightarrow>
          (case models_listing w of
             Response st (Some (JObj d)) \<Rightarrow>
               (if raise_for_status st then []
                else (case dict_get_default d ''data'' (JArr []) of
                        JArr ms \<Rightarrow> concat (map model_id ms)
                      | _ \<Rightarrow> []))
           | _ \<Rightarrow> []))"

text \<open>\<open>safe_json_parse\<close>: \<open>json.loads\<close>, with \<open>None\<close> for every exception; an argument that
  is not a string makes \<open>json.loads\<close> raise \<open>TypeError\<close>.\<close>

definition safe_json_parse :: "world \<Rightarrow> json \<Rightarrow> json" where
  "safe_json_parse w v =
     (case v of
        JStr s \<Rightarrow> (case json_loads w s of None \<Rightarrow> JNull | Some j \<Rightarrow> j)
      | _ \<Rightarrow> JNull)"

text \<open>\<open>looks_like_instruct_model\<close> starts with \<open>model_id.lower()\<close>, which an absent
  model identifier does not have.\<close>

definition looks_like_instruct_model :: "string option \<Rightarrow> py_error + bool" where
  "looks_like_instruct_model mid =
     (case mid of
        None \<Rightarrow> Inl AttributeError
      | Some s \<Rightarrow>
          (let m = lower s in
           if sublist ''instruct'' m then Inr True
           else Inr (list_ex (\<lambda>x. sublist x m) [''qwen'', ''mistral'', ''llama'', ''phi'', ''gemma'']
                     \<and> \<not> list_ex (\<lambda>y. sublist y m) [''r1'', ''reasoning''])))"

text \<open>
  \<open>(data.get("choices") or [{}])[0].get("message", {})\<close>. Only a dictionary has \<open>get\<close>;
  a true \<open>choices\<close> is indexed at 0, which gives the first element of a list, the
  first character of a string (which has no \<open>get\<close>), \<open>KeyError\<close> on a dictionary (its
  keys are strings) and \<open>TypeError\<close> on a number or a boolean.
\<close>

definition first_message :: "json \<Rightarrow> py_error + json" where
  "first_message data =
     (case data of
        JObj d \<Rightarrow>
          (case py_or (dict_get d ''choices'') (JArr [JObj []]) of
             JArr [] \<Rightarrow> Inl IndexError
           | JArr (JObj c # _) \<Rightarrow> Inr (dict_get_default c ''message'' (JObj []))
           | JArr (_ # _) \<Rightarrow> Inl AttributeError
           | JObj _ \<Rightarrow> Inl KeyError
           | JStr _ \<Rightarrow> Inl AttributeError
           | _ \<Rightarrow> Inl TypeError)
      | _ \<Rightarrow> Inl AttributeError)"

text \<open>\<open>isinstance(parsed, dict) and parsed.get("title")\<close>.\<close>

fun is_summary :: "json \<Rightarrow> bool" where
  "is_summary (JObj d) = truthy (dict_get d ''title'')"
| "is_summary _ = False"

text \<open>What one \<open>try\<close> block of the adapter does: it returns from the function, or
  control falls through to the next block.\<close>

datatype attempt = Return "json option" | Fall_through

text \<open>The part the three blocks share: \<open>content = (msg.get("content") or "").strip()\<close>,
  parsed with \<open>safe_json_parse\<close> and checked.\<close>

definition parse_content :: "world \<Rightarrow> (string \<times> json) list \<Rightarrow> py_error + json" where
  "parse_content w msg =
     (case get_stripped (dict_get msg ''content'') of
        Inl e \<Rightarrow> Inl e
      | Inr content \<Rightarrow> Inr (safe_json_parse w (JStr content)))"

text \<open>The schema-constrained request (first \<open>try\<close> block). A \<open>ConnectionError\<close> ends the
  whole call with \<open>None\<close>; every other exception falls through.\<close>

definition schema_attempt :: "world \<Rightarrow> http_result \<Rightarrow> attempt" where
  "schema_attempt w r =
     (case r of
        RaisesConnectionError \<Rightarrow> Return None
      | RaisesOther \<Rightarrow> Fall_through
      | Response st body \<Rightarrow>
          (if st \<in> set [400, 404, 415, 422, 500] then Fall_through
           else if raise_for_status st then Fall_through
           else (case body of
                   None \<Rightarrow> Fall_through
                 | Some data \<Rightarrow>
                     (case first_message data of
                        Inr (JObj msg) \<Rightarrow>
                          (let parsed = dict_get msg ''parsed'' in
                           if is_summary parsed then Return (Some parsed)
                           else (case parse_content w msg of
                                   Inl _ \<Rightarrow> Fall_through
                                 | Inr parsed2 \<Rightarrow>
                                     if is_summary parsed2 then Return (Some parsed2)
                                     else Fall_through))
                      | _ \<Rightarrow> Fall_through))))"

text \<open>\<open>tool_calls[0]["function"]["arguments"]\<close>, inside its own \<open>try\<close>: every failure
  to reach the arguments is caught and logged.\<close>

definition tool_arguments :: "json \<Rightarrow> py_error + json" where
  "tool_arguments tool_calls =
     (case tool_calls of
        JArr (JObj t # _) \<Rightarrow>
          (case map_of t ''function'' of
             Some (JObj f) \<Rightarrow>
               (case map_of f ''arguments'' of
                  Some a \<Rightarrow> Inr a
                | None \<Rightarrow> Inl KeyError)
           | Some _ \<Rightarrow> Inl TypeError
           | None \<Rightarrow> Inl KeyError)
      | JArr [] \<Rightarrow> Inl IndexError
      | JObj _ \<Rightarrow> Inl KeyError
      | _ \<Rightarrow> Inl TypeError)"

text \<open>The second request (second \<open>try\<close> block): the message content is parsed first;
  the tool call is looked at only when the content gave no summary.\<close>

definition tool_attempt :: "world \<Rightarrow> http_result \<Rightarrow> attempt" where
  "tool_attempt w r2 =
     (case r2 of
        Response st (Some data2) \<Rightarrow>
          (if raise_for_status st then Fall_through
           else (case first_message data2 of
                   Inr (JObj msg2) \<Rightarrow>
                     (case parse_content w msg2 of
                        Inl _ \<Rightarrow> Fall_through
                      | Inr parsed \<Rightarrow>
                          if is_summary parsed then Return (Some parsed)
                          else (let tool_calls = py_or (dict_get msg2 ''tool_calls'') (JArr []) in
                                if truthy tool_calls then
                                  (case tool_arguments tool_calls of
                                     Inl _ \<Rightarrow> Fall_through
                                   | Inr arguments \<Rightarrow>
                                       (let parsed2 = safe_json_parse w arguments in
                                        if is_summary parsed2 then Return (Some parsed2)
                                        else Fall_through))
                                else Fall_through))
                 | _ \<Rightarrow> Fall_through))
      | _ \<Rightarrow> Fall_through)"

text \<open>The plain-instruction request (third \<open>try\<close> block).\<close>

definition plain_attempt :: "world \<Rightarrow> http_result \<Rightarrow> attempt" where
  "plain_attempt w r3 =
     (case r3 of
        Response st (Some data3) \<Rightarrow>
          (if raise_for_status st then Fall_through
           else (case first_message data3 of
                   Inr (JObj msg3) \<Rightarrow>
                     (case parse_content w msg3 of
                        Inl _ \<Rightarrow> Fall_through
                      | Inr parsed3 \<Rightarrow>
                          if is_summary parsed3 then Return (Some parsed3)
                          else Fall_through)
                 | _ \<Rightarrow> Fall_through))
      | _ \<Rightarrow> Fall_through)"

text \<open>An article as \<open>fetch_article\<close> builds it: a dictionary with exactly these four keys.\<close>

record article =
  title :: json
  source :: json
  summary :: json
  link :: json

text \<open>The user message; \<open>desc[:2000]\<close> keeps the first 2000 characters.\<close>

definition user_prompt :: "string \<Rightarrow> string \<Rightarrow> string \<Rightarrow> string \<Rightarrow> string" where
  "user_prompt src url ttl desc =
     ''Source: '' @ src @ [CHR 0x0A] @ ''URL: '' @ url @ [CHR 0x0A] @ ''Title: '' @ ttl
       @ [CHR 0x0A, CHR 0x0A] @ ''Description snippet (may be partial):'' @ [CHR 0x0A]
       @ take 2000 desc"

definition schema_payload :: "string \<Rightarrow> string \<Rightarrow> payload" where
  "schema_payload model up =
     \<lparr>p_model = model, p_system = ''Return only what the schema requires.'', p_user = up,
      p_temperature = 1, p_max_tokens = 500, p_response_format = True, p_tools = False\<rparr>"

text \<open>The second request is built and sent whatever \<open>LM_USE_TOOLS\<close> is; the setting only
  decides whether \<open>tools\<close> and \<open>tool_choice\<close> are added to it.\<close>

definition tool_payload :: "bool \<Rightarrow> string \<Rightarrow> string \<Rightarrow> payload" where
  "tool_payload use_tools model up =
     \<lparr>p_model = model, p_system = ''You are a crisp news summarizer for a Discord channel.'',
      p_user = up, p_temperature = 2, p_max_tokens = 600, p_response_format = False,
      p_tools = use_tools\<rparr>"

definition plain_payload :: "string \<Rightarrow> string \<Rightarrow> payload" where
  "plain_payload model up =
     \<lparr>p_model = model,
      p_system = ''Return ONLY a compact JSON object with keys: title (string), key_points (array of 3 short strings), why_it_matters (string).'',
      p_user = up, p_temperature = 1, p_max_tokens = 500, p_response_format = False,
      p_tools = False\<rparr>"

text \<open>The three requests in order, with the request bodies sent so far.\<close>

definition strategies :: "config \<Rightarrow> world \<Rightarrow> string \<Rightarrow> string \<Rightarrow> json option \<times> payload list" where
  "strategies cfg w model up =
     (let p1 = schema_payload model up in
      case schema_attempt w (post w p1) of
        Return r \<Rightarrow> (r, [p1])
      | Fall_through \<Rightarrow>
          (let p2 = tool_payload (LM_USE_TOOLS cfg) model up in
           case tool_attempt w (post w p2) of
             Return r \<Rightarrow> (r, [p1, p2])
           | Fall_through \<Rightarrow>
               (let p3 = plain_payload model up in
                case plain_attempt w (post w p3) of
                  Return r \<Rightarrow> (r, [p1, p2, p3])
                | Fall_through \<Rightarrow> (None, [p1, p2, p3]))))"

text \<open>
  \<open>summarize_with_lmstudio\<close>: the result (an exception that leaves the function, or the
  summary, or \<open>None\<close>) and the request bodies posted. The statements before the first
  \<open>try\<close> are not guarded: \<open>looks_like_instruct_model(LMSTUDIO_MODEL)\<close>,
  \<open>LMSTUDIO_BASE_URL.rstrip('/')\<close> and the four \<open>(article.get(k) or "").strip()\<close>.
\<close>

definition summarize_with_lmstudio ::
    "config \<Rightarrow> world \<Rightarrow> article \<Rightarrow> (py_error + json option) \<times> payload list" where
  "summarize_with_lmstudio cfg w art =
     (let models = lmstudio_models cfg w in
      case (LMSTUDIO_MODEL cfg, looks_like_instruct_model (LMSTUDIO_MODEL cfg)) of
        (Some model, Inr _) \<Rightarrow>
          (case LMSTUDIO_BASE_URL cfg of
             None \<Rightarrow> (Inl AttributeError, [])
           | Some base \<Rightarrow>
               (case get_stripped (summary art) of
                  Inl e \<Rightarrow> (Inl e, [])
                | Inr desc \<Rightarrow>
               (case get_stripped (title art) of
                  Inl e \<Rightarrow> (Inl e, [])
                | Inr ttl \<Rightarrow>
               (case get_stripped (source art) of
                  Inl e \<Rightarrow> (Inl e, [])
                | Inr src \<Rightarrow>
               (case get_stripped (link art) of
                  Inl e \<Rightarrow> (Inl e, [])
                | Inr url \<Rightarrow>
                    (let (r, sent) = strategies cfg w model (user_prompt src url ttl desc)
                     in (Inr r, sent)))))))
      | _ \<Rightarrow> (Inl AttributeError, []))"

section \<open>The query pools and the article fetcher (news.py)\<close>

record pools =
  available_queries :: "string list"
  used_queries :: "string list"

text \<open>\<open>load_topics_from_file\<close>: the stripped non-blank lines of the file, or nothing when
  the file does not exist; the topics are appended to \<open>available_queries\<close>, which the
  module created empty. The module calls it once, when it is imported.\<close>

definition load_topics_from_file :: "string list option \<Rightarrow> string list" where
  "load_topics_from_file file =
     (case file of
        None \<Rightarrow> []
      | Some lines \<Rightarrow> map strip (filter (\<lambda>line. strip line \<noteq> []) lines))"

definition loaded :: "string list option \<Rightarrow> pools" where
  "loaded file = \<lparr>available_queries = [] @ load_topics_from_file file, used_queries = []\<rparr>"

text \<open>\<open>available_queries.extend(used_queries); used_queries.clear()\<close>.\<close>

definition refill :: "pools \<Rightarrow> pools" where
  "refill ps = \<lparr>available_queries = available_queries ps @ used_queries ps, used_queries = []\<rparr>"

text \<open>
  \<open>random.shuffle\<close> walks the positions from the last down to 1 and swaps each with a
  position drawn at or below it; the draw for position \<open>i\<close> is \<open>randbelow i\<close> reduced
  below \<open>i + 1\<close>. Every order of the list is the result for some draws.
\<close>

fun shuffle_from :: "(nat \<Rightarrow> nat) \<Rightarrow> nat \<Rightarrow> 'a list \<Rightarrow> 'a list" where
  "shuffle_from r 0 xs = xs"
| "shuffle_from r (Suc i) xs =
     (let j = r (Suc i) mod (Suc i + 1)
      in shuffle_from r i (xs[Suc i := xs ! j, j := xs ! Suc i]))"

definition shuffle :: "(nat \<Rightarrow> nat) \<Rightarrow> 'a list \<Rightarrow> 'a list" where
  "shuffle r xs = shuffle_from r (length xs - 1) xs"

text \<open>
  \<open>handle_api_limit\<close>: starting from 15 * 60 seconds, sleep \<open>min(60, sleep_seconds)\<close>,
  take 60 off and log \<open>sleep_seconds // 60\<close>, while seconds remain. The result lists
  each sleep with the minutes logged after it.
\<close>

function wait_loop :: "int \<Rightarrow> (int \<times> int) list" where
  "wait_loop sleep_seconds =
     (if sleep_seconds > 0
      then (min 60 sleep_seconds, (sleep_seconds - 60) div 60) # wait_loop (sleep_seconds - 60)
      else [])"
  by pat_completeness auto
termination
  by (relation "measure nat") auto

declare wait_loop.simps [simp del]

definition handle_api_limit :: "(int \<times> int) list" where
  "handle_api_limit = wait_loop (15 * 60)"

text \<open>\<open>url in recent_urls\<close>: membership in a set hashes the value, and a list or a
  dictionary is not hashable; a value that is not a string equals no element of a set
  of strings.\<close>

definition in_recent :: "json \<Rightarrow> string set \<Rightarrow> py_error + bool" where
  "in_recent url recent_urls =
     (case url of
        JStr s \<Rightarrow> Inr (s \<in> recent_urls)
      | JArr _ \<Rightarrow> Inl TypeError
      | JObj _ \<Rightarrow> Inl TypeError
      | _ \<Rightarrow> Inr False)"

text \<open>\<open>(article.get("source") or {}).get("name", "")\<close>.\<close>

definition source_name :: "(string \<times> json) list \<Rightarrow> py_error + json" where
  "source_name a =
     (case py_or (dict_get a ''source'') (JObj []) of
        JObj sd \<Rightarrow> Inr (dict_get_default sd ''name'' (JStr []))
      | _ \<Rightarrow> Inl AttributeError)"

text \<open>What one pass of the \<open>for query in list(available_queries)\<close> loop ends in: the
  rate-limit return, the return of an article, or the next query (after \<open>continue\<close>, after
  the \<open>else\<close> branch or after the \<open>except Exception\<close> handler), each with the pools as
  the pass leaves them.\<close>

datatype outcome =
    Rate_limited
  | Returned article pools
  | Next_query pools

text \<open>
  The part of a pass after the duplicate check: the query moves to the used pool
  (\<open>list.remove\<close> raises \<open>ValueError\<close> for a value that is not there), the article is
  built, and the summarizer is called. All of it is inside the \<open>try\<close>, so an exception
  after the move goes on to the next query with the move made.
\<close>

definition commit_and_build ::
    "config \<Rightarrow> world \<Rightarrow> string \<Rightarrow> (string \<times> json) list \<Rightarrow> json \<Rightarrow> pools \<Rightarrow> outcome" where
  "commit_and_build cfg w query a url ps =
     (if query \<notin> set (available_queries ps) then Next_query ps
      else
        (let ps' = \<lparr>available_queries = remove1 query (available_queries ps),
                    used_queries = used_queries ps @ [query]\<rparr>
         in case source_name a of
              Inl _ \<Rightarrow> Next_query ps'
            | Inr src \<Rightarrow>
                (let result = \<lparr>title = dict_get_default a ''title'' (JStr []),
                               source = src,
                               summary = py_or (dict_get a ''description'')
                                               (JStr ''No description available.''),
                               link = url\<rparr>
                 in case fst (summarize_with_lmstudio cfg w result) of
                      Inl _ \<Rightarrow> Next_query ps'
                    | Inr None \<Rightarrow> Returned result ps'
                    | Inr (Some lm_summary) \<Rightarrow>
                        if truthy lm_summary
                        then Returned (result\<lparr>summary := lm_summary\<rparr>) ps'
                        else Returned result ps')))"

definition fetch_one :: "config \<Rightarrow> world \<Rightarrow> string set \<Rightarrow> string \<Rightarrow> pools \<Rightarrow> outcome" where
  "fetch_one cfg w recent_urls query ps =
     (case search w query of
        RaisesConnectionError \<Rightarrow> Next_query ps
      | RaisesOther \<Rightarrow> Next_query ps
      | Response st body \<Rightarrow>
          (if st = 429 then Rate_limited
           else if raise_for_status st then Next_query ps
           else (case body of
                   Some (JObj data) \<Rightarrow>
                     (let articles = py_or (dict_get data ''articles'') (JArr []) in
                      if truthy articles then
                        (case articles of
                           JArr (JObj a # _) \<Rightarrow>
                             (let url = dict_get a ''url'' in
                              case in_recent url recent_urls of
                                Inl _ \<Rightarrow> Next_query ps
                              | Inr True \<Rightarrow> Next_query ps
                              | Inr False \<Rightarrow> commit_and_build cfg w query a url ps)
                         | _ \<Rightarrow> Next_query ps)
                      else Next_query ps)
                 | _ \<Rightarrow> Next_query ps)))"

text \<open>What a call of \<open>fetch_article\<close> leaves behind: its result, the pools, the terms it
  sent to the search service in order, the rate-limit wait it made, and the configuration
  errors it printed (its other messages are not recorded).\<close>

record fetched =
  returned :: "article option"
  pools_after :: pools
  searched :: "string list"
  waited :: "(int \<times> int) list"
  diagnostics :: "diagnostic list"

fun fetch_loop :: "config \<Rightarrow> world \<Rightarrow> string set \<Rightarrow> string list \<Rightarrow> pools \<Rightarrow> fetched" where
  "fetch_loop cfg w recent_urls [] ps =
     \<lparr>returned = None, pools_after = ps, searched = [], waited = [], diagnostics = []\<rparr>"
| "fetch_loop cfg w recent_urls (query # rest) ps =
     (case fetch_one cfg w recent_urls query ps of
        Rate_limited \<Rightarrow>
          \<lparr>returned = None, pools_after = ps, searched = [query], waited = handle_api_limit,
           diagnostics = []\<rparr>
      | Returned result ps' \<Rightarrow>
          \<lparr>returned = Some result, pools_after = ps', searched = [query], waited = [],
           diagnostics = []\<rparr>
      | Next_query ps' \<Rightarrow>
          (let out = fetch_loop cfg w recent_urls rest ps'
           in out\<lparr>searched := query # searched out\<rparr>))"

text \<open>
  \<open>fetch_article\<close>. Without a search key it prints the error and returns at once. Otherwise an empty available
  pool is refilled from the used one, the available pool is shuffled in place, and the
  loop runs over a copy of it.
\<close>

definition fetch_article :: "config \<Rightarrow> world \<Rightarrow> string set \<Rightarrow> pools \<Rightarrow> fetched" where
  "fetch_article cfg w recent_urls ps =
     (if unset (NEWS_API_KEY cfg)
      then \<lparr>returned = None, pools_after = ps, searched = [], waited = [],
            diagnostics = [News_key_not_set]\<rparr>
      else
        (let ps1 = (if available_queries ps = [] then refill ps else ps);
             ps2 = ps1\<lparr>available_queries := shuffle (randbelow w) (available_queries ps1)\<rparr>
         in fetch_loop cfg w recent_urls (available_queries ps2) ps2))"

section \<open>The daily reset (tasks.py)\<close>

text \<open>One pass of \<open>reset_queries_every_morning\<close>, which wakes every hour: when the hour
  of the clock is 9, the used pool is poured back into the available one.\<close>

definition reset_queries_every_morning :: "nat \<Rightarrow> pools \<Rightarrow> pools" where
  "reset_queries_every_morning current_hour ps = (if current_hour = 9 then refill ps else ps)"

text \<open>
  The two tasks that touch the pools run on one event loop, and neither awaits between
  reading and writing them (the only \<open>await\<close> inside \<open>fetch_article\<close>, the rate-limit wait,
  is followed by \<open>return None\<close>). So the pools go through a sequence of whole calls.
\<close>

datatype pool_op =
    Fetch config world "string set"
  | Morning_check nat

fun apply_pool_op :: "pool_op \<Rightarrow> pools \<Rightarrow> pools" where
  "apply_pool_op (Fetch cfg w recent_urls) ps = pools_after (fetch_article cfg w recent_urls ps)"
| "apply_pool_op (Morning_check current_hour) ps = reset_queries_every_morning current_hour ps"

definition run_pool_ops :: "pool_op list \<Rightarrow> pools \<Rightarrow> pools" where
  "run_pool_ops ops ps = foldl (\<lambda>s op. apply_pool_op op s) ps ops"

text \<open>The terms the two pools hold between them, counted with multiplicity.\<close>

definition all_terms :: "pools \<Rightarrow> string multiset" where
  "all_terms ps = mset (available_queries ps) + mset (used_queries ps)"

section \<open>Startup (config.py, main.py)\<close>

text \<open>
  \<open>ensure_token\<close> prints its error and calls \<open>sys.exit(1)\<close> when the token is absent, empty
  or blank. \<open>ensure_required\<close> collects the missing keys among the two channel identifiers,
  the completion base URL and the model, and when there is one prints them and calls
  \<open>sys.exit(1)\<close>; the search key is not among them. Each gives the exit status and what
  it printed when it exits.
\<close>

definition ensure_token :: "config \<Rightarrow> (nat \<times> diagnostic list) option" where
  "ensure_token cfg =
     (case DISCORD_TOKEN cfg of
        None \<Rightarrow> Some (1, [Token_not_set])
      | Some t \<Rightarrow> if t = [] \<or> strip t = [] then Some (1, [Token_not_set]) else None)"

definition missing_keys :: "config \<Rightarrow> string list" where
  "missing_keys cfg =
     (if ADMIN_CHANNEL_ID cfg = None then [''ADMIN_CHANNEL_ID''] else []) @
     (if POST_CHANNEL_ID cfg = None then [''POST_CHANNEL_ID''] else []) @
     (if unset (LMSTUDIO_BASE_URL cfg) then [''LMSTUDIO_BASE_URL''] else []) @
     (if unset (LMSTUDIO_MODEL cfg) then [''LMSTUDIO_MODEL''] else [])"

definition ensure_required :: "config \<Rightarrow> (nat \<times> diagnostic list) option" where
  "ensure_required cfg =
     (if missing_keys cfg \<noteq> [] then Some (1, [Missing_config_keys (missing_keys cfg)])
      else None)"

text \<open>
  \<open>main\<close> calls \<open>ensure_token\<close>, registers the \<open>on_ready\<close> handler and calls
  \<open>bot.run(DISCORD_TOKEN)\<close>, which connects to the chat platform. It does not call
  \<open>ensure_required\<close>. The process either exits, with a status and after the messages
  printed, having made no connection, or runs the bot.
\<close>

datatype startup = Exit nat "diagnostic list" | Bot_run

definition main :: "config \<Rightarrow> startup" where
  "main cfg =
     (case ensure_token cfg of
        Some (status, printed) \<Rightarrow> Exit status printed
      | None \<Rightarrow> Bot_run)"

section \<open>The poll scheduler's sleep (tasks.py)\<close>

text \<open>
  A reading of \<open>datetime.datetime.now()\<close>, to the second: the day as a count of days and
  the time of day. The difference of two readings in seconds is what
  \<open>(a - b).total_seconds()\<close> gives.
\<close>

record datetime =
  day :: int
  hour :: nat
  minute :: nat
  second :: nat

definition timestamp :: "datetime \<Rightarrow> int" where
  "timestamp t = day t * 86400 + int (hour t) * 3600 + int (minute t) * 60 + int (second t)"

text \<open>
  The sleep the scheduler computes when the hour is 22 or later, or before 9:
  \<open>tomorrow = now + timedelta(days=1)\<close>, \<open>next_morning\<close> is 09:00 on the day of
  \<open>tomorrow\<close>, and \<open>sleep_seconds = (next_morning - now).total_seconds()\<close>.
\<close>

definition next_morning :: "datetime \<Rightarrow> datetime" where
  "next_morning now =
     (let tomorrow = now\<lparr>day := day now + 1\<rparr>
      in \<lparr>day = day tomorrow, hour = 9, minute = 0, second = 0\<rparr>)"

definition sleep_seconds :: "datetime \<Rightarrow> int" where
  "sleep_seconds now = timestamp (next_morning now) - timestamp now"

text \<open>The seconds from a reading of the clock to the next time it shows 09:00, which is on
  the same day when the reading is before 09:00. This is the quantity the specification
  names, not a function of the program.\<close>

definition seconds_until_next_nine :: "datetime \<Rightarrow> int" where
  "seconds_until_next_nine now =
     (if hour now < 9
      then timestamp (now\<lparr>hour := 9, minute := 0, second := 0\<rparr>) - timestamp now
      else timestamp \<lparr>day = day now + 1, hour = 9, minute = 0, second = 0\<rparr> - timestamp now)"

text \<open>
  The sleep loop: while seconds remain, sleep \<open>min(60, sleep_seconds)\<close>, take 60 off, read
  the clock and stop when its hour is from 9 to 21. The clock gives the hour read at
  each wake, by the number of the wake. The result is the list of sleeps.
\<close>

function quiet_sleep :: "(nat \<Rightarrow> nat) \<Rightarrow> nat \<Rightarrow> int \<Rightarrow> int list" where
  "quiet_sleep hour_at wake remaining =
     (if remaining > 0
      then min 60 remaining #
             (if 9 \<le> hour_at wake \<and> hour_at wake < 22 then []
              else quiet_sleep hour_at (Suc wake) (remaining - 60))
      else [])"
  by pat_completeness auto
termination
  by (relation "measure (\<lambda>(hour_at, wake, remaining). nat remaining)") auto

declare quiet_sleep.simps [simp del]

text \<open>What the scheduler does at the end of a pass of its loop: outside the active hours
  the sleep loop from the computed seconds, otherwise one sleep of 1800 seconds.\<close>

definition end_of_pass :: "datetime \<Rightarrow> (nat \<Rightarrow> nat) \<Rightarrow> int list" where
  "end_of_pass now hour_at =
     (if hour now \<ge> 22 \<or> hour now < 9
      then quiet_sleep hour_at 0 (sleep_seconds now)
      else [1800])"

section \<open>Moderation (discord_bot.py)\<close>

text \<open>
  Two button presses on the review message of one article are handled by two runs of
  \<open>accept\<close> or \<open>reject\<close> on one event loop. A run is a sequence of steps; the event loop
  may switch runs at an \<open>await\<close>. The steps here are finer than that (the lock's
  acquisition, the membership test, the removal and the release are steps of their own),
  so every order in which the event loop can run the two handlers is an order of these
  steps. The platform calls are taken to return normally.
\<close>

datatype button = Accept | Reject

datatype handler = First | Second

text \<open>Where a handler stands: before \<open>defer\<close>; waiting for the lock; holding it before
  the test; having found the article; having removed it; having missed it; having sent
  the notice; past the lock; past the acknowledgement; past the edit of the review
  message; stopped by an exception; returned (with whether its decision took effect).\<close>

datatype position =
    Clicked
  | Deferred
  | In_lock
  | Found
  | Removed
  | Missing
  | Notified
  | Unlocked
  | Acknowledged
  | Edited
  | Crashed
  | Ended bool

record moderation =
  unactioned_articles :: "article list"
  unactioned_articles_lock :: "handler option"
  at :: "handler \<Rightarrow> position"
  public_posts :: "article list"
  already_moderated :: "handler list"
  removals :: "(handler \<times> handler option) list"

definition move :: "handler \<Rightarrow> position \<Rightarrow> moderation \<Rightarrow> moderation" where
  "move h p s = s\<lparr>at := (at s)(h := p)\<rparr>"

text \<open>
  The next step of handler \<open>h\<close>, for the article its view holds; nothing when the handler
  has returned or waits for a lock that is taken. \<open>removals\<close> records each
  \<open>unactioned_articles.remove\<close> with the holder of the lock at that moment;
  \<open>already_moderated\<close> records who was sent the notice. \<open>post_to_public_channel\<close> sends
  only when the public channel resolves.
\<close>

definition handler_step ::
    "(handler \<Rightarrow> button) \<Rightarrow> bool \<Rightarrow> article \<Rightarrow> handler \<Rightarrow> moderation \<Rightarrow> moderation option" where
  "handler_step pressed channel_ok a h s =
     (case at s h of
        Clicked \<Rightarrow> Some (move h Deferred s)
      | Deferred \<Rightarrow>
          (if unactioned_articles_lock s = None
           then Some (move h In_lock (s\<lparr>unactioned_articles_lock := Some h\<rparr>))
           else None)
      | In_lock \<Rightarrow>
          Some (move h (if a \<in> set (unactioned_articles s) then Found else Missing) s)
      | Found \<Rightarrow>
          (if a \<in> set (unactioned_articles s)
           then Some (move h Removed
                  (s\<lparr>unactioned_articles := remove1 a (unactioned_articles s),
                     removals := removals s @ [(h, unactioned_articles_lock s)]\<rparr>))
           else Some (move h Crashed (s\<lparr>unactioned_articles_lock := None\<rparr>)))
      | Removed \<Rightarrow> Some (move h Unlocked (s\<lparr>unactioned_articles_lock := None\<rparr>))
      | Missing \<Rightarrow> Some (move h Notified (s\<lparr>already_moderated := already_moderated s @ [h]\<rparr>))
      | Notified \<Rightarrow> Some (move h (Ended False) (s\<lparr>unactioned_articles_lock := None\<rparr>))
      | Unlocked \<Rightarrow> Some (move h Acknowledged s)
      | Acknowledged \<Rightarrow>
          (case pressed h of
             Accept \<Rightarrow> Some (move h Edited s)
           | Reject \<Rightarrow> Some (move h (Ended True) s))
      | Edited \<Rightarrow>
          Some (move h (Ended True)
                 (if channel_ok then s\<lparr>public_posts := public_posts s @ [a]\<rparr> else s))
      | Crashed \<Rightarrow> None
      | Ended _ \<Rightarrow> None)"

text \<open>A schedule names the handler that runs at each moment; a handler that cannot step
  when it is named leaves the state as it is.\<close>

definition scheduled ::
    "(handler \<Rightarrow> button) \<Rightarrow> bool \<Rightarrow> article \<Rightarrow> moderation \<Rightarrow> handler \<Rightarrow> moderation" where
  "scheduled pressed channel_ok a s h =
     (case handler_step pressed channel_ok a h s of None \<Rightarrow> s | Some s' \<Rightarrow> s')"

definition run_handlers ::
    "(handler \<Rightarrow> button) \<Rightarrow> bool \<Rightarrow> article \<Rightarrow> handler list \<Rightarrow> moderation \<Rightarrow> moderation" where
  "run_handlers pressed channel_ok a schedule s = foldl (scheduled pressed channel_ok a) s schedule"

text \<open>Both buttons have just been pressed: the queue is as given, the lock is free, nothing
  has been posted.\<close>

definition pending :: "article list \<Rightarrow> moderation" where
  "pending queue =
     \<lparr>unactioned_articles = queue, unactioned_articles_lock = None, at = (\<lambda>h. Clicked),
      public_posts = [], already_moderated = [], removals = []\<rparr>"

text \<open>
  For the proof: the positions at which a handler holds the lock, those from which its
  decision has taken effect (it has removed the article), those at which it found the
  article gone, and those at which it has been sent the notice.
\<close>

fun holds_lock :: "position \<Rightarrow> bool" where
  "holds_lock In_lock = True"
| "holds_lock Found = True"
| "holds_lock Removed = True"
| "holds_lock Missing = True"
| "holds_lock Notified = True"
| "holds_lock _ = False"

fun took_effect :: "position \<Rightarrow> bool" where
  "took_effect Removed = True"
| "took_effect Unlocked = True"
| "took_effect Acknowledged = True"
| "took_effect Edited = True"
| "took_effect (Ended e) = e"
| "took_effect _ = False"

fun missed :: "position \<Rightarrow> bool" where
  "missed Missing = True"
| "missed Notified = True"
| "missed (Ended e) = (\<not> e)"
| "missed _ = False"

fun saw_notice :: "position \<Rightarrow> bool" where
  "saw_notice Notified = True"
| "saw_notice (Ended e) = (\<not> e)"
| "saw_notice _ = False"

fun other :: "handler \<Rightarrow> handler" where
  "other First = Second"
| "other Second = First"

text \<open>
  What holds of every state the two handlers can reach from \<open>pending queue\<close> when the
  article is in the queue once: the lock is held exactly by a handler inside the
  \<open>async with\<close> block; the article has been removed exactly when a decision has taken
  effect, which at most one has; a handler that found the article has it still in the
  queue, one that missed it was preceded by the other; and the three logs record just
  this.
\<close>

definition consistent ::
    "(handler \<Rightarrow> button) \<Rightarrow> bool \<Rightarrow> article \<Rightarrow> article list \<Rightarrow> moderation \<Rightarrow> bool" where
  "consistent pressed channel_ok a queue s =
     ((\<forall>h. (unactioned_articles_lock s = Some h) = holds_lock (at s h)) \<and>
      unactioned_articles s
        = (if \<exists>h. took_effect (at s h) then remove1 a queue else queue) \<and>
      (\<forall>h. took_effect (at s h) \<longrightarrow> \<not> took_effect (at s (other h))) \<and>
      (\<forall>h. at s h = Found \<longrightarrow> \<not> took_effect (at s (other h))) \<and>
      (\<forall>h. missed (at s h) \<longrightarrow> took_effect (at s (other h))) \<and>
      (\<forall>h. at s h \<noteq> Crashed) \<and>
      (\<forall>h. at s h = Edited \<longrightarrow> pressed h = Accept) \<and>
      (\<forall>h. took_effect (at s h) \<longrightarrow> removals s = [(h, Some h)]) \<and>
      ((\<forall>h. \<not> took_effect (at s h)) \<longrightarrow> removals s = []) \<and>
      (\<forall>h. saw_notice (at s h) \<longrightarrow> already_moderated s = [h]) \<and>
      ((\<forall>h. \<not> saw_notice (at s h)) \<longrightarrow> already_moderated s = []) \<and>
      (\<forall>h. at s h = Ended True \<longrightarrow>
           public_posts s = (if pressed h = Accept \<and> channel_ok then [a] else [])) \<and>
      ((\<forall>h. at s h \<noteq> Ended True) \<longrightarrow> public_posts s = []))"

text \<open>The largest number of steps a handler can still take, and the two handlers having
  returned.\<close>

fun steps_left :: "position \<Rightarrow> nat" where
  "steps_left Clicked = 8"
| "steps_left Deferred = 7"
| "steps_left In_lock = 6"
| "steps_left Found = 5"
| "steps_left Removed = 4"
| "steps_left Unlocked = 3"
| "steps_left Acknowledged = 2"
| "steps_left Edited = 1"
| "steps_left Missing = 2"
| "steps_left Notified = 1"
| "steps_left Crashed = 0"
| "steps_left (Ended e) = 0"

definition steps_remaining :: "moderation \<Rightarrow> nat" where
  "steps_remaining s = steps_left (at s First) + steps_left (at s Second)"

fun has_ended :: "position \<Rightarrow> bool" where
  "has_ended (Ended e) = True"
| "has_ended _ = False"

definition both_ended :: "moderation \<Rightarrow> bool" where
  "both_ended s = (has_ended (at s First) \<and> has_ended (at s Second))"

section \<open>What a search response carries\<close>

text \<open>The top result of a search response: the first element of \<open>articles\<close>, when the
  request succeeded with a status that is neither 429 nor an error, the body is a JSON
  object and that element is an object. It is used to state what the fetcher is given; the
  fetcher itself is \<open>fetch_one\<close>.\<close>

definition top_article :: "http_result \<Rightarrow> (string \<times> json) list option" where
  "top_article r =
     (case r of
        Response st (Some (JObj data)) \<Rightarrow>
          (if st = 429 \<or> raise_for_status st then None
           else (case dict_get data ''articles'' of
                   JArr (JObj a # _) \<Rightarrow> Some a
                 | _ \<Rightarrow> None))
      | _ \<Rightarrow> None)"

text \<open>The top result is an article whose link is one of the excluded links.\<close>

definition top_is_duplicate :: "string set \<Rightarrow> http_result \<Rightarrow> bool" where
  "top_is_duplicate recent_urls r =
     (case top_article r of
        None \<Rightarrow> False
      | Some a \<Rightarrow> (case dict_get a ''url'' of JStr l \<Rightarrow> l \<in> recent_urls | _ \<Rightarrow> False))"

section \<open>Concrete inputs\<close>

text \<open>A complete configuration, a search response that carries one article, and a world
  in which the search service always answers with it while the completion service
  cannot be reached.\<close>

definition example_config :: config where
  "example_config =
     \<lparr>DISCORD_TOKEN = Some ''token'', ADMIN_CHANNEL_ID = Some 1, POST_CHANNEL_ID = Some 2,
      NEWS_API_KEY = Some ''key'', LMSTUDIO_BASE_URL = Some ''http://localhost:1234'',
      LMSTUDIO_MODEL = Some ''qwen2.5-7b-instruct-mlx'', LMSTUDIO_API_KEY = None,
      LM_USE_TOOLS = False\<rparr>"

definition example_hit :: "string \<Rightarrow> http_result" where
  "example_hit url =
     Response 200 (Some (JObj [(''status'', JStr ''ok''),
       (''articles'', JArr [JObj [(''title'', JStr ''Headline''),
                                  (''source'', JObj [(''name'', JStr ''Wire'')]),
                                  (''description'', JStr ''Body''),
                                  (''url'', JStr url)]])]))"

definition example_world :: world where
  "example_world =
     \<lparr>search = (\<lambda>query. example_hit ''https://example.org/a''),
      models_listing = RaisesConnectionError,
      post = (\<lambda>p. RaisesConnectionError),
      json_loads = (\<lambda>s. None),
      randbelow = (\<lambda>i. 0)\<rparr>"

text \<open>
  A completion response whose message carries both a content that is the JSON text
  \<open>{"title": "A"}\<close> and a tool call whose arguments are the JSON text \<open>{"title": "B"}\<close>,
  with \<open>json.loads\<close> on these two texts (byte 0x22 is the double quote).
\<close>

definition content_text :: string where
  "content_text = ''{'' @ [CHR 0x22] @ ''title'' @ [CHR 0x22] @ '': '' @ [CHR 0x22] @ ''A''
                    @ [CHR 0x22] @ ''}''"

definition arguments_text :: string where
  "arguments_text = ''{'' @ [CHR 0x22] @ ''title'' @ [CHR 0x22] @ '': '' @ [CHR 0x22] @ ''B''
                      @ [CHR 0x22] @ ''}''"

definition example_loads :: "string \<Rightarrow> json option" where
  "example_loads s =
     (if s = content_text then Some (JObj [(''title'', JStr ''A'')])
      else if s = arguments_text then Some (JObj [(''title'', JStr ''B'')])
      else None)"

definition both_message :: "(string \<times> json) list" where
  "both_message =
     [(''role'', JStr ''assistant''),
      (''content'', JStr content_text),
      (''tool_calls'', JArr [JObj [(''type'', JStr ''function''),
         (''function'', JObj [(''name'', JStr ''summarize_article''),
                              (''arguments'', JStr arguments_text)])]])]"

definition both_body :: json where
  "both_body = JObj [(''choices'', JArr [JObj [(''message'', JObj both_message)]])]"

definition both_response :: http_result where
  "both_response = Response 200 (Some both_body)"

text \<open>A completion service that rejects the schema-constrained request with status 422 and
  fails every other request.\<close>

definition rejecting_world :: world where
  "rejecting_world =
     example_world\<lparr>post := (\<lambda>p. if p_response_format p then Response 422 None else RaisesOther)\<rparr>"

definition example_article :: article where
  "example_article =
     \<lparr>title = JStr ''Headline'', source = JStr ''Wire'', summary = JStr ''Body'',
      link = JStr ''https://example.org/a''\<rparr>"

text \<open>A completion service that rejects the schema-constrained request with status 422 and
  answers every other request with the response above.\<close>

definition tool_world :: world where
  "tool_world =
     example_world\<lparr>post := (\<lambda>p. if p_response_format p then Response 422 None else both_response),
                   json_loads := example_loads\<rparr>"

text \<open>The same service when \<open>json.loads\<close> rejects the content and accepts only the
  arguments of the tool call.\<close>

definition arguments_only_world :: world where
  "arguments_only_world =
     tool_world\<lparr>json_loads :=
       (\<lambda>s. if s = arguments_text then Some (JObj [(''title'', JStr ''B'')]) else None)\<rparr>"

text \<open>Two presses on the review message of the example article, Accept handled by the first
  handler and Reject by the second, and an order of their steps in which the second
  handler takes the lock while the first waits for it.\<close>

definition example_presses :: "handler \<Rightarrow> button" where
  "example_presses h = (case h of First \<Rightarrow> Accept | Second \<Rightarrow> Reject)"

definition example_schedule :: "handler list" where
  "example_schedule =
     [First, Second, Second, First, Second, Second, First, Second, First, Second, First,
      Second, First, First]"

section \<open>Query pool conservation\<close>

lemma mset_shuffle_from:
  "i < length xs \<Longrightarrow> mset (shuffle_from r i xs) = mset xs"
proof (induction i arbitrary: xs)
  case 0
  then show ?case by simp
next
  case (Suc i)
  let ?j = "r (Suc i) mod (Suc i + 1)"
  have "?j < Suc i + 1" by simp
  then have j: "?j < length xs" using Suc.prems by linarith
  have swap: "mset (xs[Suc i := xs ! ?j, ?j := xs ! Suc i]) = mset xs"
    using mset_swap [OF j Suc.prems] .
  have "i < length (xs[Suc i := xs ! ?j, ?j := xs ! Suc i])"
    using Suc.prems by simp
  then have "mset (shuffle_from r i (xs[Suc i := xs ! ?j, ?j := xs ! Suc i])) = mset xs"
    using Suc.IH swap by simp
  then show ?case by (simp add: Let_def)
qed

lemma mset_shuffle: "mset (shuffle r xs) = mset xs"
proof (cases xs)
  case Nil
  then show ?thesis by (simp add: shuffle_def)
next
  case (Cons x ys)
  then have "length xs - 1 < length xs" by simp
  then show ?thesis unfolding shuffle_def by (rule mset_shuffle_from)
qed

lemma all_terms_refill: "all_terms (refill ps) = all_terms ps"
  by (simp add: all_terms_def refill_def)

lemma all_terms_commit_and_build:
  "commit_and_build cfg w q a url ps = Returned res ps' \<or>
   commit_and_build cfg w q a url ps = Next_query ps'
   \<Longrightarrow> all_terms ps' = all_terms ps"
  by (auto simp: commit_and_build_def all_terms_def Let_def
           split: if_splits sum.splits option.splits)

lemma fetch_one_cases:
  "fetch_one cfg w E q ps = Rate_limited \<or> fetch_one cfg w E q ps = Next_query ps \<or>
   (\<exists>a url. fetch_one cfg w E q ps = commit_and_build cfg w q a url ps
      \<and> in_recent url E = Inr False)"
  unfolding fetch_one_def Let_def
  by (simp split: http_result.split option.split json.split list.split sum.split bool.split)
     blast

lemma all_terms_fetch_one_Returned:
  assumes "fetch_one cfg w E q ps = Returned res ps'"
  shows "all_terms ps' = all_terms ps"
proof -
  consider "fetch_one cfg w E q ps = Rate_limited"
    | "fetch_one cfg w E q ps = Next_query ps"
    | a url where "fetch_one cfg w E q ps = commit_and_build cfg w q a url ps"
    using fetch_one_cases [of cfg w E q ps] by blast
  then show ?thesis
  proof cases
    case 1
    with assms show ?thesis by simp
  next
    case 2
    with assms show ?thesis by simp
  next
    case 3
    with assms have "commit_and_build cfg w q a url ps = Returned res ps'" by simp
    then show ?thesis using all_terms_commit_and_build by blast
  qed
qed

lemma all_terms_fetch_one_Next:
  assumes "fetch_one cfg w E q ps = Next_query ps'"
  shows "all_terms ps' = all_terms ps"
proof -
  consider "fetch_one cfg w E q ps = Rate_limited"
    | "fetch_one cfg w E q ps = Next_query ps"
    | a url where "fetch_one cfg w E q ps = commit_and_build cfg w q a url ps"
    using fetch_one_cases [of cfg w E q ps] by blast
  then show ?thesis
  proof cases
    case 1
    with assms show ?thesis by simp
  next
    case 2
    with assms show ?thesis by simp
  next
    case 3
    with assms have "commit_and_build cfg w q a url ps = Next_query ps'" by simp
    then show ?thesis using all_terms_commit_and_build by blast
  qed
qed

lemma all_terms_fetch_loop:
  "all_terms (pools_after (fetch_loop cfg w E qs ps)) = all_terms ps"
proof (induction qs arbitrary: ps)
  case Nil
  show ?case by simp
next
  case (Cons q qs)
  show ?case
  proof (cases "fetch_one cfg w E q ps")
    case Rate_limited
    then show ?thesis by simp
  next
    case (Returned res ps')
    then show ?thesis using all_terms_fetch_one_Returned by simp
  next
    case (Next_query ps')
    then have "all_terms ps' = all_terms ps" by (rule all_terms_fetch_one_Next)
    then show ?thesis using Next_query Cons.IH [of ps'] by (simp add: Let_def)
  qed
qed

lemma all_terms_shuffled:
  "all_terms (ps\<lparr>available_queries := shuffle r (available_queries ps)\<rparr>) = all_terms ps"
  by (simp add: all_terms_def mset_shuffle)

lemma all_terms_fetch_article:
  "all_terms (pools_after (fetch_article cfg w E ps)) = all_terms ps"
  by (simp add: fetch_article_def Let_def all_terms_fetch_loop all_terms_shuffled
        all_terms_refill)

lemma all_terms_apply_pool_op: "all_terms (apply_pool_op op ps) = all_terms ps"
  by (cases op)
     (simp_all add: all_terms_fetch_article reset_queries_every_morning_def all_terms_refill)

lemma all_terms_run_pool_ops: "all_terms (run_pool_ops ops ps) = all_terms ps"
  unfolding run_pool_ops_def
  by (induction ops arbitrary: ps) (simp_all add: all_terms_apply_pool_op)

lemma all_terms_loaded: "all_terms (loaded f) = mset (load_topics_from_file f)"
  by (simp add: all_terms_def loaded_def)

text \<open>
  Claim C1, as amended. For every topics file and every sequence of \<open>fetch_article\<close> calls
  and hourly checks of the morning reset, whatever the configuration, the services'
  answers and the shuffles: the terms of the available and the used pool together are,
  with multiplicity, the terms that were loaded, so that no term is dropped and none is
  added. When the loaded terms are pairwise different, neither pool repeats a term and
  no term is in both, so every loaded term is in exactly one pool. The file is not
  deduplicated on loading, so a term written twice in it can be in both pools at once.
\<close>

theorem query_pool_conservation:
  "all_terms (run_pool_ops ops (loaded f)) = mset (load_topics_from_file f) \<and>
   (distinct (load_topics_from_file f) \<longrightarrow>
      distinct (available_queries (run_pool_ops ops (loaded f))) \<and>
      distinct (used_queries (run_pool_ops ops (loaded f))) \<and>
      set (available_queries (run_pool_ops ops (loaded f)))
        \<inter> set (used_queries (run_pool_ops ops (loaded f))) = {})"
proof -
  let ?s = "run_pool_ops ops (loaded f)"
  have eq: "mset (available_queries ?s @ used_queries ?s) = mset (load_topics_from_file f)"
    using all_terms_run_pool_ops [of ops "loaded f"] all_terms_loaded [of f]
    by (simp add: all_terms_def)
  have "distinct (available_queries ?s @ used_queries ?s)"
    if "distinct (load_topics_from_file f)"
    using that eq mset_eq_imp_distinct_iff by blast
  then show ?thesis
    using all_terms_run_pool_ops [of ops "loaded f"] all_terms_loaded [of f]
    by auto
qed

text \<open>The theorem at a file with the two terms \<open>climate\<close> and \<open>AI\<close>, after a fetch that
  finds an article and a morning reset.\<close>

theorem query_pool_conservation_witness:
  "distinct (load_topics_from_file (Some [''climate'', ''AI''])) \<and>
   all_terms (run_pool_ops [Fetch example_config example_world {}, Morning_check 9]
                (loaded (Some [''climate'', ''AI''])))
     = mset [''climate'', ''AI''] \<and>
   set (available_queries (run_pool_ops [Fetch example_config example_world {}, Morning_check 9]
                (loaded (Some [''climate'', ''AI'']))))
     \<inter> set (used_queries (run_pool_ops [Fetch example_config example_world {}, Morning_check 9]
                (loaded (Some [''climate'', ''AI''])))) = {}"
proof -
  have topics: "load_topics_from_file (Some [''climate'', ''AI'']) = [''climate'', ''AI'']"
    by code_simp
  show ?thesis
    using query_pool_conservation
            [of "[Fetch example_config example_world {}, Morning_check 9]"
                "Some [''climate'', ''AI'']"]
    by (simp add: topics)
qed

text \<open>The claim as it is written fails for a topics file that holds the line \<open>AI\<close> twice:
  after one fetch that finds an article, \<open>AI\<close> is in both pools.\<close>

theorem query_pool_disjoint_counterexample:
  "run_pool_ops [Fetch example_config example_world {}] (loaded (Some [''AI'', ''AI'']))
     = \<lparr>available_queries = [''AI''], used_queries = [''AI'']\<rparr>"
  by code_simp

section \<open>Rate-limit handling\<close>

lemma handle_api_limit_value:
  "handle_api_limit =
     [(60, 14), (60, 13), (60, 12), (60, 11), (60, 10), (60, 9), (60, 8), (60, 7),
      (60, 6), (60, 5), (60, 4), (60, 3), (60, 2), (60, 1), (60, 0)]"
  unfolding handle_api_limit_def by (simp add: wait_loop.simps)

lemma fetch_one_429: "search w q = Response 429 body \<Longrightarrow> fetch_one cfg w E q ps = Rate_limited"
  by (simp add: fetch_one_def)

lemma fetch_loop_429:
  assumes "search w q = Response 429 body"
  shows "q \<in> set (searched (fetch_loop cfg w E qs ps)) \<Longrightarrow>
         returned (fetch_loop cfg w E qs ps) = None \<and>
         waited (fetch_loop cfg w E qs ps) = handle_api_limit \<and>
         last (searched (fetch_loop cfg w E qs ps)) = q"
proof (induction qs arbitrary: ps)
  case Nil
  then show ?case by simp
next
  case (Cons q' qs)
  show ?case
  proof (cases "q' = q")
    case True
    then have "fetch_one cfg w E q' ps = Rate_limited"
      using assms by (simp add: fetch_one_429)
    with True show ?thesis by simp
  next
    case False
    show ?thesis
    proof (cases "fetch_one cfg w E q' ps")
      case Rate_limited
      with Cons.prems False show ?thesis by simp
    next
      case (Returned res ps')
      with Cons.prems False show ?thesis by simp
    next
      case (Next_query ps')
      with Cons.prems False have in_rest: "q \<in> set (searched (fetch_loop cfg w E qs ps'))"
        by (simp add: Let_def)
      then have "searched (fetch_loop cfg w E qs ps') \<noteq> []" by auto
      with Cons.IH [OF in_rest] Next_query show ?thesis by (simp add: Let_def)
    qed
  qed
qed

lemma fetch_article_429:
  assumes "search w q = Response 429 body"
    and "q \<in> set (searched (fetch_article cfg w E ps))"
  shows "returned (fetch_article cfg w E ps) = None \<and>
         waited (fetch_article cfg w E ps) = handle_api_limit \<and>
         last (searched (fetch_article cfg w E ps)) = q"
proof (cases "unset (NEWS_API_KEY cfg)")
  case True
  with assms(2) show ?thesis by (simp add: fetch_article_def)
next
  case False
  then obtain qs ps2 where eq: "fetch_article cfg w E ps = fetch_loop cfg w E qs ps2"
    by (simp add: fetch_article_def Let_def)
  with assms(2) have "q \<in> set (searched (fetch_loop cfg w E qs ps2))" by simp
  from fetch_loop_429 [OF assms(1) this] eq show ?thesis by simp
qed

text \<open>
  Claim C7. Whenever the search request for a term returns status 429, at whatever pass of
  the loop and with whatever pools, \<open>fetch_article\<close> makes the rate-limit wait and returns
  \<open>None\<close>: no later term is sent to the search service and the pools stay as they were
  when the response arrived. So in a whole call, a term that was searched and answered
  with 429 is the last term searched, and the call returned \<open>None\<close> after the wait. The
  wait is 15 sleeps of 60 seconds, 15 minutes in all, and after each sleep the minutes
  that remain are logged, from 14 down to 0.
\<close>

theorem rate_limit_handling:
  assumes "search w query = Response 429 body"
  shows "fetch_loop cfg w recent_urls (query # rest) ps =
           \<lparr>returned = None, pools_after = ps, searched = [query], waited = handle_api_limit,
            diagnostics = []\<rparr>
         \<and> (query \<in> set (searched (fetch_article cfg w recent_urls ps)) \<longrightarrow>
              returned (fetch_article cfg w recent_urls ps) = None \<and>
              waited (fetch_article cfg w recent_urls ps) = handle_api_limit \<and>
              last (searched (fetch_article cfg w recent_urls ps)) = query)
         \<and> map fst handle_api_limit = replicate 15 60
         \<and> sum_list (map fst handle_api_limit) = 15 * 60
         \<and> map snd handle_api_limit = [14, 13, 12, 11, 10, 9, 8, 7, 6, 5, 4, 3, 2, 1, 0]"
proof -
  have "fetch_one cfg w recent_urls query ps = Rate_limited"
    using assms by (rule fetch_one_429)
  then have "fetch_loop cfg w recent_urls (query # rest) ps =
           \<lparr>returned = None, pools_after = ps, searched = [query], waited = handle_api_limit,
            diagnostics = []\<rparr>"
    by simp
  moreover have "map fst handle_api_limit = replicate 15 60
         \<and> sum_list (map fst handle_api_limit) = 15 * 60
         \<and> map snd handle_api_limit = [14, 13, 12, 11, 10, 9, 8, 7, 6, 5, 4, 3, 2, 1, 0]"
    by (simp add: handle_api_limit_value eval_nat_numeral)
  ultimately show ?thesis
    using fetch_article_429 [OF assms, of cfg recent_urls ps] by blast
qed

text \<open>The theorem for a search service that answers every request with 429.\<close>

theorem rate_limit_handling_witness:
  "search (example_world\<lparr>search := (\<lambda>q. Response 429 None)\<rparr>) ''climate'' = Response 429 None \<and>
   fetch_loop example_config (example_world\<lparr>search := (\<lambda>q. Response 429 None)\<rparr>) {}
       [''climate'', ''AI'']
       \<lparr>available_queries = [''AI'', ''climate''], used_queries = [''space'']\<rparr>
     = \<lparr>returned = None,
        pools_after = \<lparr>available_queries = [''AI'', ''climate''], used_queries = [''space'']\<rparr>,
        searched = [''climate''], waited = handle_api_limit, diagnostics = []\<rparr> \<and>
   ''climate'' \<in> set (searched (fetch_article example_config
       (example_world\<lparr>search := (\<lambda>q. Response 429 None)\<rparr>) {}
       \<lparr>available_queries = [''AI'', ''climate''], used_queries = [''space'']\<rparr>)) \<and>
   returned (fetch_article example_config
       (example_world\<lparr>search := (\<lambda>q. Response 429 None)\<rparr>) {}
       \<lparr>available_queries = [''AI'', ''climate''], used_queries = [''space'']\<rparr>) = None \<and>
   waited (fetch_article example_config
       (example_world\<lparr>search := (\<lambda>q. Response 429 None)\<rparr>) {}
       \<lparr>available_queries = [''AI'', ''climate''], used_queries = [''space'']\<rparr>)
     = handle_api_limit"
proof -
  have h: "search (example_world\<lparr>search := (\<lambda>q. Response 429 None)\<rparr>) ''climate''
             = Response 429 None"
    by simp
  have s: "searched (fetch_article example_config
       (example_world\<lparr>search := (\<lambda>q. Response 429 None)\<rparr>) {}
       \<lparr>available_queries = [''AI'', ''climate''], used_queries = [''space'']\<rparr>)
     = [''climate'']"
    by code_simp
  show ?thesis
    using h s rate_limit_handling [OF h, of example_config "{}" "[''AI'']"
                  "\<lparr>available_queries = [''AI'', ''climate''], used_queries = [''space'']\<rparr>"]
    by simp
qed

section \<open>Deduplication\<close>

lemma fetch_one_duplicate:
  "top_is_duplicate E (search w q) \<Longrightarrow> fetch_one cfg w E q ps = Next_query ps"
  unfolding top_is_duplicate_def top_article_def fetch_one_def Let_def
  by (auto simp: py_or_def in_recent_def
      split: http_result.splits option.splits json.splits list.splits if_splits)

lemma fetch_loop_duplicates:
  "\<forall>q. top_is_duplicate E (search w q) \<Longrightarrow>
   fetch_loop cfg w E qs ps =
     \<lparr>returned = None, pools_after = ps, searched = qs, waited = [], diagnostics = []\<rparr>"
  by (induction qs) (simp_all add: fetch_one_duplicate)

lemma commit_and_build_link:
  "commit_and_build cfg w q a url ps = Returned art ps' \<Longrightarrow> link art = url"
  by (auto simp: commit_and_build_def Let_def split: if_splits sum.splits option.splits)

lemma fetch_one_link:
  assumes "fetch_one cfg w E q ps = Returned art ps'"
  shows "in_recent (link art) E = Inr False"
proof -
  consider "fetch_one cfg w E q ps = Rate_limited"
    | "fetch_one cfg w E q ps = Next_query ps"
    | a url where "fetch_one cfg w E q ps = commit_and_build cfg w q a url ps"
        "in_recent url E = Inr False"
    using fetch_one_cases [of cfg w E q ps] by blast
  then show ?thesis
  proof cases
    case 1 with assms show ?thesis by simp
  next
    case 2 with assms show ?thesis by simp
  next
    case 3
    with assms have "commit_and_build cfg w q a url ps = Returned art ps'" by simp
    then have "link art = url" by (rule commit_and_build_link)
    with 3 show ?thesis by simp
  qed
qed

lemma fetch_loop_link:
  "returned (fetch_loop cfg w E qs ps) = Some art \<Longrightarrow> in_recent (link art) E = Inr False"
proof (induction qs arbitrary: ps)
  case Nil
  then show ?case by simp
next
  case (Cons q qs)
  show ?case
  proof (cases "fetch_one cfg w E q ps")
    case Rate_limited
    with Cons.prems show ?thesis by simp
  next
    case (Returned res ps')
    with Cons.prems have "res = art" by simp
    with Returned show ?thesis using fetch_one_link by blast
  next
    case (Next_query ps')
    with Cons.prems have "returned (fetch_loop cfg w E qs ps') = Some art"
      by (simp add: Let_def)
    then show ?thesis by (rule Cons.IH)
  qed
qed

lemma in_recent_False: "in_recent v E = Inr False \<Longrightarrow> L \<in> E \<Longrightarrow> v \<noteq> JStr L"
  by (auto simp: in_recent_def split: json.splits)

lemma fetch_article_link:
  "returned (fetch_article cfg w E ps) = Some art \<Longrightarrow> in_recent (link art) E = Inr False"
  by (auto simp: fetch_article_def Let_def split: if_splits dest: fetch_loop_link)

text \<open>
  Claim C2. For every set of excluded links, an article that \<open>fetch_article\<close> returns
  never has one of them as its link. If the top result of the search service is, for every
  query, an article whose link is excluded, \<open>fetch_article\<close> returns \<open>None\<close> and moves no
  term to the used pool: the used pool is what it was (or empty, when the call began by
  pouring it back into an empty available pool), and the available pool holds the same
  terms as before.
\<close>

theorem dedup:
  "(returned (fetch_article cfg w E ps) = Some art \<longrightarrow> (\<forall>L\<in>E. link art \<noteq> JStr L)) \<and>
   ((\<forall>q. top_is_duplicate E (search w q)) \<longrightarrow>
      returned (fetch_article cfg w E ps) = None \<and>
      used_queries (pools_after (fetch_article cfg w E ps))
        = (if available_queries ps = [] \<and> \<not> unset (NEWS_API_KEY cfg) then []
           else used_queries ps) \<and>
      mset (available_queries (pools_after (fetch_article cfg w E ps)))
        = (if available_queries ps = [] \<and> \<not> unset (NEWS_API_KEY cfg)
           then mset (used_queries ps) else mset (available_queries ps)))"
proof (intro conjI impI)
  assume "returned (fetch_article cfg w E ps) = Some art"
  then have "in_recent (link art) E = Inr False" by (rule fetch_article_link)
  then show "\<forall>L\<in>E. link art \<noteq> JStr L" using in_recent_False by blast
next
  assume dup: "\<forall>q. top_is_duplicate E (search w q)"
  show "returned (fetch_article cfg w E ps) = None"
    by (simp add: fetch_article_def Let_def fetch_loop_duplicates [OF dup])
  show "used_queries (pools_after (fetch_article cfg w E ps))
        = (if available_queries ps = [] \<and> \<not> unset (NEWS_API_KEY cfg) then []
           else used_queries ps)"
    by (simp add: fetch_article_def Let_def fetch_loop_duplicates [OF dup] refill_def)
  show "mset (available_queries (pools_after (fetch_article cfg w E ps)))
        = (if available_queries ps = [] \<and> \<not> unset (NEWS_API_KEY cfg)
           then mset (used_queries ps) else mset (available_queries ps))"
    by (simp add: fetch_article_def Let_def fetch_loop_duplicates [OF dup] refill_def
          mset_shuffle)
qed

text \<open>The theorem at a search service whose top result is always the same article: with
  another link excluded the article is returned, with its own link excluded nothing is.\<close>

theorem dedup_witness:
  "returned (fetch_article example_config example_world {''https://example.org/b''}
              \<lparr>available_queries = [''climate'', ''AI''], used_queries = []\<rparr>)
     = Some \<lparr>title = JStr ''Headline'', source = JStr ''Wire'',
              summary = JStr ''Body'', link = JStr ''https://example.org/a''\<rparr> \<and>
   JStr ''https://example.org/a'' \<noteq> JStr ''https://example.org/b'' \<and>
   (\<forall>q. top_is_duplicate {''https://example.org/a''} (search example_world q)) \<and>
   returned (fetch_article example_config example_world {''https://example.org/a''}
              \<lparr>available_queries = [''climate'', ''AI''], used_queries = []\<rparr>) = None \<and>
   used_queries (pools_after (fetch_article example_config example_world
              {''https://example.org/a''}
              \<lparr>available_queries = [''climate'', ''AI''], used_queries = []\<rparr>)) = []"
proof -
  have fresh:
    "returned (fetch_article example_config example_world {''https://example.org/b''}
                \<lparr>available_queries = [''climate'', ''AI''], used_queries = []\<rparr>)
       = Some \<lparr>title = JStr ''Headline'', source = JStr ''Wire'',
                summary = JStr ''Body'', link = JStr ''https://example.org/a''\<rparr>"
    by code_simp
  have dup: "\<forall>q. top_is_duplicate {''https://example.org/a''} (search example_world q)"
    by (simp add: example_world_def example_hit_def top_is_duplicate_def top_article_def
          raise_for_status_def dict_get_def)
  have "JStr ''https://example.org/a'' \<noteq> JStr ''https://example.org/b''"
    using fresh
      dedup [of example_config example_world "{''https://example.org/b''}"
                "\<lparr>available_queries = [''climate'', ''AI''], used_queries = []\<rparr>"
                "\<lparr>title = JStr ''Headline'', source = JStr ''Wire'',
                  summary = JStr ''Body'', link = JStr ''https://example.org/a''\<rparr>"]
    by simp
  moreover have
    "returned (fetch_article example_config example_world {''https://example.org/a''}
                \<lparr>available_queries = [''climate'', ''AI''], used_queries = []\<rparr>) = None \<and>
     used_queries (pools_after (fetch_article example_config example_world
                {''https://example.org/a''}
                \<lparr>available_queries = [''climate'', ''AI''], used_queries = []\<rparr>)) = []"
    using dup
      dedup [of example_config example_world "{''https://example.org/a''}"
                "\<lparr>available_queries = [''climate'', ''AI''], used_queries = []\<rparr>"]
    by simp
  ultimately show ?thesis using fresh dup by blast
qed

section \<open>What the summarizer returns\<close>

lemma is_summary_truthy: "is_summary s \<Longrightarrow> truthy s"
  by (cases s) (auto simp: dict_get_def split: option.splits)

lemma schema_attempt_summary: "schema_attempt w r = Return (Some s) \<Longrightarrow> is_summary s"
  unfolding schema_attempt_def Let_def
  by (auto split: http_result.splits if_splits option.splits sum.splits json.splits)

lemma tool_attempt_summary: "tool_attempt w r = Return (Some s) \<Longrightarrow> is_summary s"
  unfolding tool_attempt_def Let_def
  by (auto split: http_result.splits if_splits option.splits sum.splits json.splits)

lemma plain_attempt_summary: "plain_attempt w r = Return (Some s) \<Longrightarrow> is_summary s"
  unfolding plain_attempt_def Let_def
  by (auto split: http_result.splits if_splits option.splits sum.splits json.splits)

lemma strategies_summary: "strategies cfg w model up = (Some s, sent) \<Longrightarrow> is_summary s"
  unfolding strategies_def Let_def
  by (auto split: attempt.splits
      dest: schema_attempt_summary tool_attempt_summary plain_attempt_summary)

lemma summarize_cases:
  "fst (summarize_with_lmstudio cfg w art) = Inr r \<Longrightarrow>
   (\<exists>model base desc ttl src url.
      LMSTUDIO_MODEL cfg = Some model \<and> LMSTUDIO_BASE_URL cfg = Some base \<and>
      get_stripped (summary art) = Inr desc \<and> get_stripped (title art) = Inr ttl \<and>
      get_stripped (source art) = Inr src \<and> get_stripped (link art) = Inr url \<and>
      summarize_with_lmstudio cfg w art
        = (Inr (fst (strategies cfg w model (user_prompt src url ttl desc))),
           snd (strategies cfg w model (user_prompt src url ttl desc))))"
  unfolding summarize_with_lmstudio_def Let_def
  by (auto split: option.splits sum.splits prod.splits)

lemma summarize_summary:
  assumes "fst (summarize_with_lmstudio cfg w art) = Inr (Some s)"
  shows "is_summary s"
proof -
  from summarize_cases [OF assms] obtain model up where
    "summarize_with_lmstudio cfg w art
       = (Inr (fst (strategies cfg w model up)), snd (strategies cfg w model up))"
    by blast
  with assms have "fst (strategies cfg w model up) = Some s" by simp
  then have "strategies cfg w model up = (Some s, snd (strategies cfg w model up))"
    by (metis prod.collapse)
  then show ?thesis by (rule strategies_summary)
qed

lemma get_stripped_truthy:
  "get_stripped v = Inr d \<Longrightarrow> truthy v \<Longrightarrow> \<exists>s. v = JStr s \<and> s \<noteq> []"
  by (cases v) (auto simp: get_stripped_def py_or_def)

section \<open>The summary of a fetched article\<close>

lemma commit_and_build_summary:
  assumes "commit_and_build cfg w q a url ps = Returned art ps'"
  shows "is_summary (summary art) \<or>
         (\<exists>s. s \<noteq> [] \<and> summary art = JStr s \<and>
            (dict_get a ''description'' = JStr s \<or>
             \<not> truthy (dict_get a ''description'') \<and> s = ''No description available.''))"
proof -
  from assms obtain src where src: "source_name a = Inr src"
    by (auto simp: commit_and_build_def Let_def split: if_splits sum.splits)
  define result where
    "result = \<lparr>title = dict_get_default a ''title'' (JStr []), source = src,
               summary = py_or (dict_get a ''description'') (JStr ''No description available.''),
               link = url\<rparr>"
  show ?thesis
  proof (cases "fst (summarize_with_lmstudio cfg w result)")
    case (Inl e)
    with assms src show ?thesis
      by (auto simp: commit_and_build_def Let_def result_def split: if_splits)
  next
    case (Inr r)
    show ?thesis
    proof (cases r)
      case None
      with Inr assms src have art: "art = result"
        by (auto simp: commit_and_build_def Let_def result_def split: if_splits)
      from summarize_cases [OF Inr] obtain desc where
        "get_stripped (summary result) = Inr desc" by blast
      moreover have "truthy (summary result)"
        by (simp add: result_def py_or_def)
      ultimately obtain s where s: "summary result = JStr s" "s \<noteq> []"
        using get_stripped_truthy by blast
      then have "dict_get a ''description'' = JStr s \<or>
                 \<not> truthy (dict_get a ''description'') \<and> s = ''No description available.''"
        by (auto simp: result_def py_or_def split: if_splits)
      with s art show ?thesis by blast
    next
      case (Some lm)
      with Inr have "is_summary lm" using summarize_summary by blast
      moreover from this have "truthy lm" by (rule is_summary_truthy)
      ultimately show ?thesis using Some Inr assms src
        by (auto simp: commit_and_build_def Let_def result_def split: if_splits)
    qed
  qed
qed

lemma fetch_one_Returned:
  "fetch_one cfg w E q ps = Returned art ps' \<Longrightarrow>
   \<exists>a url. top_article (search w q) = Some a \<and>
           commit_and_build cfg w q a url ps = Returned art ps'"
  unfolding fetch_one_def top_article_def Let_def
  by (auto simp: py_or_def
      split: http_result.splits option.splits json.splits list.splits if_splits sum.splits
             bool.splits)

lemma fetch_loop_Returned:
  "returned (fetch_loop cfg w E qs ps) = Some art \<Longrightarrow>
   searched (fetch_loop cfg w E qs ps) \<noteq> [] \<and>
   (\<exists>ps0 ps'. fetch_one cfg w E (last (searched (fetch_loop cfg w E qs ps))) ps0
                 = Returned art ps')"
proof (induction qs arbitrary: ps)
  case Nil
  then show ?case by simp
next
  case (Cons q qs)
  show ?case
  proof (cases "fetch_one cfg w E q ps")
    case Rate_limited
    with Cons.prems show ?thesis by simp
  next
    case (Returned res ps')
    with Cons.prems have "res = art" by simp
    with Returned show ?thesis by auto
  next
    case (Next_query ps')
    with Cons.prems have "returned (fetch_loop cfg w E qs ps') = Some art"
      by (simp add: Let_def)
    from Cons.IH [OF this] Next_query show ?thesis by (auto simp: Let_def)
  qed
qed

text \<open>
  Claim C10. Every article that \<open>fetch_article\<close> returns was built from the top result of
  the last term it searched, and its summary is either a dictionary whose \<open>title\<close> entry
  is true (not absent, \<open>None\<close>, empty or zero), or a non-empty string: the description of
  that result or, when the description is absent or false, exactly
  \<open>No description available.\<close> It is never \<open>None\<close> and never the empty string. (A
  description that is true and not a string makes the summarizer raise, and the article is
  not returned.)
\<close>

theorem fetched_summary_shape:
  assumes "returned (fetch_article cfg w E ps) = Some art"
  shows "\<exists>a. top_article (search w (last (searched (fetch_article cfg w E ps)))) = Some a \<and>
           (is_summary (summary art) \<or>
            (\<exists>s. s \<noteq> [] \<and> summary art = JStr s \<and>
               (dict_get a ''description'' = JStr s \<or>
                \<not> truthy (dict_get a ''description'') \<and> s = ''No description available.'')))"
proof -
  from assms obtain qs ps2 where
    loop: "fetch_article cfg w E ps = fetch_loop cfg w E qs ps2"
    by (auto simp: fetch_article_def Let_def split: if_splits)
  with assms have "returned (fetch_loop cfg w E qs ps2) = Some art" by simp
  from fetch_loop_Returned [OF this] loop obtain ps0 ps' where
    "fetch_one cfg w E (last (searched (fetch_article cfg w E ps))) ps0 = Returned art ps'"
    by auto
  from fetch_one_Returned [OF this] obtain a url where
    a: "top_article (search w (last (searched (fetch_article cfg w E ps)))) = Some a"
    and "commit_and_build cfg w (last (searched (fetch_article cfg w E ps))) a url ps0
           = Returned art ps'"
    by blast
  from commit_and_build_summary [OF this(2)] a show ?thesis by blast
qed

text \<open>The theorem at a search that finds an article with the description \<open>Body\<close>.\<close>

theorem fetched_summary_shape_witness:
  "returned (fetch_article example_config example_world {}
              \<lparr>available_queries = [''climate'', ''AI''], used_queries = []\<rparr>)
     = Some \<lparr>title = JStr ''Headline'', source = JStr ''Wire'',
              summary = JStr ''Body'', link = JStr ''https://example.org/a''\<rparr> \<and>
   (\<exists>a. top_article (search example_world (last (searched (fetch_article example_config
              example_world {}
              \<lparr>available_queries = [''climate'', ''AI''], used_queries = []\<rparr>)))) = Some a \<and>
      (is_summary (JStr ''Body'') \<or>
       (\<exists>s. s \<noteq> [] \<and> JStr ''Body'' = JStr s \<and>
          (dict_get a ''description'' = JStr s \<or>
           \<not> truthy (dict_get a ''description'') \<and> s = ''No description available.''))))"
proof -
  have h:
    "returned (fetch_article example_config example_world {}
                \<lparr>available_queries = [''climate'', ''AI''], used_queries = []\<rparr>)
       = Some \<lparr>title = JStr ''Headline'', source = JStr ''Wire'',
                summary = JStr ''Body'', link = JStr ''https://example.org/a''\<rparr>"
    by code_simp
  show ?thesis
    using h fetched_summary_shape [OF h] by simp
qed

section \<open>The summarizer can raise\<close>

lemma looks_like_instruct_model_Some: "\<exists>b. looks_like_instruct_model (Some m) = Inr b"
  by (auto simp: looks_like_instruct_model_def Let_def)

lemma summarizer_returns_when_configured:
  assumes "LMSTUDIO_MODEL cfg = Some model" "LMSTUDIO_BASE_URL cfg = Some base"
    and "get_stripped (summary art) = Inr desc" "get_stripped (title art) = Inr ttl"
    and "get_stripped (source art) = Inr src" "get_stripped (link art) = Inr url"
  shows "summarize_with_lmstudio cfg w art
     = (Inr (fst (strategies cfg w model (user_prompt src url ttl desc))),
        snd (strategies cfg w model (user_prompt src url ttl desc)))"
proof -
  obtain b where "looks_like_instruct_model (Some model) = Inr b"
    using looks_like_instruct_model_Some by blast
  with assms show ?thesis
    by (simp add: summarize_with_lmstudio_def Let_def split: prod.splits)
qed

text \<open>
  Claim C4 says that \<open>summarize_with_lmstudio\<close> never raises. The requests are guarded, but
  the statements before the first \<open>try\<close> are not. With \<open>LMSTUDIO_MODEL\<close> absent from the
  environment (\<open>main\<close> does not call \<open>ensure_required\<close>, which would have refused to start),
  \<open>looks_like_instruct_model(None)\<close> raises \<open>AttributeError\<close> out of the adapter, for every
  article and whatever the services do, before any request is posted.
\<close>

theorem summarizer_raises_without_model:
  "summarize_with_lmstudio (example_config\<lparr>LMSTUDIO_MODEL := None\<rparr>) w art
     = (Inl AttributeError, [])"
  by (simp add: summarize_with_lmstudio_def looks_like_instruct_model_def)

text \<open>What follows in \<open>fetch_article\<close>, whose \<open>try\<close> catches the exception after the term has
  been moved: every term that finds a fresh article is used up and no article is
  returned.\<close>

lemma fetch_commits_without_model:
  "fetch_article (example_config\<lparr>LMSTUDIO_MODEL := None\<rparr>) example_world {}
      \<lparr>available_queries = [''climate'', ''AI''], used_queries = []\<rparr>
   = \<lparr>returned = None,
      pools_after = \<lparr>available_queries = [], used_queries = [''AI'', ''climate'']\<rparr>,
      searched = [''AI'', ''climate''], waited = [], diagnostics = []\<rparr>"
  by code_simp

section \<open>The order of the summarizer's requests\<close>

lemma strategies_422:
  assumes "post w (schema_payload model up) = Response 422 body"
  shows "strategies cfg w model up =
    (case tool_attempt w (post w (tool_payload (LM_USE_TOOLS cfg) model up)) of
       Return r \<Rightarrow> (r, [schema_payload model up, tool_payload (LM_USE_TOOLS cfg) model up])
     | Fall_through \<Rightarrow>
         (case plain_attempt w (post w (plain_payload model up)) of
            Return r \<Rightarrow> (r, [schema_payload model up, tool_payload (LM_USE_TOOLS cfg) model up,
                              plain_payload model up])
          | Fall_through \<Rightarrow> (None, [schema_payload model up,
                              tool_payload (LM_USE_TOOLS cfg) model up, plain_payload model up])))"
  using assms by (simp add: strategies_def schema_attempt_def Let_def split: attempt.splits)

text \<open>
  Claim C8, as amended. When the schema-constrained request is answered with status 422
  (and the adapter does not raise), the request posted next is the second one, with the
  system message of the summarizer for the chat channel; it carries the function-call
  tools exactly when \<open>LM_USE_TOOLS\<close> is set. The plain-instruction request is posted third,
  and only when the second request gave no summary. With \<open>LM_USE_TOOLS\<close> off the second
  request is still posted, without tools: it is not skipped.
\<close>

theorem summarizer_fallback_order:
  assumes "summarize_with_lmstudio cfg w art = (Inr r, sent)"
    and "\<forall>p. p_response_format p \<longrightarrow> post w p = Response 422 body"
  shows "\<exists>model up.
           LMSTUDIO_MODEL cfg = Some model \<and>
           take 2 sent = [schema_payload model up, tool_payload (LM_USE_TOOLS cfg) model up] \<and>
           p_tools (tool_payload (LM_USE_TOOLS cfg) model up) = LM_USE_TOOLS cfg \<and>
           (sent = [schema_payload model up, tool_payload (LM_USE_TOOLS cfg) model up] \<and>
              tool_attempt w (post w (tool_payload (LM_USE_TOOLS cfg) model up)) = Return r
            \<or>
            sent = [schema_payload model up, tool_payload (LM_USE_TOOLS cfg) model up,
                    plain_payload model up] \<and>
              tool_attempt w (post w (tool_payload (LM_USE_TOOLS cfg) model up)) = Fall_through)"
proof -
  from assms(1) have "fst (summarize_with_lmstudio cfg w art) = Inr r" by simp
  from summarize_cases [OF this] assms(1) obtain model up where
    m: "LMSTUDIO_MODEL cfg = Some model" and
    st: "strategies cfg w model up = (r, sent)"
    by (metis Pair_inject prod.collapse sum.inject(2))
  have "post w (schema_payload model up) = Response 422 body"
    using assms(2) by (simp add: schema_payload_def)
  from strategies_422 [OF this, of cfg] st m show ?thesis
    by (auto simp: tool_payload_def split: attempt.splits)
qed

text \<open>The theorem at a service that rejects the schema-constrained request and fails the
  other two.\<close>

theorem summarizer_fallback_order_witness:
  "post rejecting_world (schema_payload ''m'' ''u'') = Response 422 None \<and>
   fst (summarize_with_lmstudio example_config rejecting_world example_article) = Inr None \<and>
   (\<exists>model up.
      LMSTUDIO_MODEL example_config = Some model \<and>
      take 2 (snd (summarize_with_lmstudio example_config rejecting_world example_article))
        = [schema_payload model up, tool_payload (LM_USE_TOOLS example_config) model up] \<and>
      p_tools (tool_payload (LM_USE_TOOLS example_config) model up)
        = LM_USE_TOOLS example_config)"
proof -
  have h1: "fst (summarize_with_lmstudio example_config rejecting_world example_article)
              = Inr None"
    by code_simp
  then have h1':
    "summarize_with_lmstudio example_config rejecting_world example_article
       = (Inr None, snd (summarize_with_lmstudio example_config rejecting_world example_article))"
    by (metis prod.collapse)
  have h2: "\<forall>p. p_response_format p \<longrightarrow> post rejecting_world p = Response 422 None"
    by (simp add: rejecting_world_def)
  have h3: "post rejecting_world (schema_payload ''m'' ''u'') = Response 422 None"
    by (simp add: rejecting_world_def schema_payload_def)
  from summarizer_fallback_order [OF h1' h2] h1 h3 show ?thesis
    by blast
qed

text \<open>The claim as it is written fails: with \<open>LM_USE_TOOLS\<close> off and the schema-constrained
  request rejected, three requests are posted, and the one between the schema-constrained
  and the plain-instruction request carries no tools.\<close>

theorem summarizer_skips_nothing_counterexample:
  "map p_system (snd (summarize_with_lmstudio example_config rejecting_world example_article))
     = [''Return only what the schema requires.'',
        ''You are a crisp news summarizer for a Discord channel.'',
        ''Return ONLY a compact JSON object with keys: title (string), key_points (array of 3 short strings), why_it_matters (string).'']
   \<and> map p_tools (snd (summarize_with_lmstudio example_config rejecting_world example_article))
     = [False, False, False]
   \<and> LM_USE_TOOLS example_config = False"
  by code_simp

section \<open>The second request: what is parsed first\<close>

text \<open>
  Claim C9, as amended. In the second request's block, for every response that has a
  message with a readable content: the content is parsed first, and when it parses to a
  dictionary with a true \<open>title\<close> that is the result, whether or not a tool call is present.
  Only when the content gives no such dictionary are the arguments of the first tool call
  parsed; they are the result when a tool call is present and they parse to a dictionary
  with a true \<open>title\<close>, and otherwise the block falls through to the plain-instruction
  request.
\<close>

theorem tool_strategy_parse_order:
  assumes "\<not> raise_for_status st"
    and "first_message data2 = Inr (JObj msg2)"
    and "get_stripped (dict_get msg2 ''content'') = Inr content"
  shows "(is_summary (safe_json_parse w (JStr content)) \<longrightarrow>
            tool_attempt w (Response st (Some data2))
              = Return (Some (safe_json_parse w (JStr content)))) \<and>
         (\<not> is_summary (safe_json_parse w (JStr content)) \<longrightarrow>
            tool_attempt w (Response st (Some data2))
              = (case tool_arguments (dict_get msg2 ''tool_calls'') of
                   Inr arguments \<Rightarrow>
                     if truthy (dict_get msg2 ''tool_calls'')
                        \<and> is_summary (safe_json_parse w arguments)
                     then Return (Some (safe_json_parse w arguments))
                     else Fall_through
                 | Inl e \<Rightarrow> Fall_through))"
  using assms
  by (auto simp: tool_attempt_def parse_content_def Let_def py_or_def
      split: sum.splits)

text \<open>The theorem at a response that carries both a content and a tool call: where both
  parse, and where only the arguments of the tool call do.\<close>

theorem tool_strategy_parse_order_witness:
  "\<not> raise_for_status 200 \<and>
   first_message both_body = Inr (JObj both_message) \<and>
   get_stripped (dict_get both_message ''content'') = Inr content_text \<and>
   is_summary (safe_json_parse tool_world (JStr content_text)) \<and>
   tool_attempt tool_world (Response 200 (Some both_body))
     = Return (Some (JObj [(''title'', JStr ''A'')])) \<and>
   \<not> is_summary (safe_json_parse arguments_only_world (JStr content_text)) \<and>
   tool_attempt arguments_only_world (Response 200 (Some both_body))
     = Return (Some (JObj [(''title'', JStr ''B'')]))"
proof -
  have h1: "\<not> raise_for_status 200" by (simp add: raise_for_status_def)
  have h2: "first_message both_body = Inr (JObj both_message)" by code_simp
  have h3: "get_stripped (dict_get both_message ''content'') = Inr content_text" by code_simp
  have p1: "safe_json_parse tool_world (JStr content_text) = JObj [(''title'', JStr ''A'')]"
    by code_simp
  have p2: "safe_json_parse arguments_only_world (JStr content_text) = JNull" by code_simp
  have p3: "tool_arguments (dict_get both_message ''tool_calls'') = Inr (JStr arguments_text)"
    by code_simp
  have p4: "safe_json_parse arguments_only_world (JStr arguments_text)
              = JObj [(''title'', JStr ''B'')]"
    by code_simp
  have p5: "truthy (dict_get both_message ''tool_calls'')" by code_simp
  have s1: "is_summary (JObj [(''title'', JStr ''A'')])" by (simp add: dict_get_def)
  have s2: "is_summary (JObj [(''title'', JStr ''B'')])" by (simp add: dict_get_def)
  have "tool_attempt tool_world (Response 200 (Some both_body))
          = Return (Some (JObj [(''title'', JStr ''A'')]))"
    using tool_strategy_parse_order [OF h1 h2 h3, of tool_world] p1 s1 by simp
  moreover have "tool_attempt arguments_only_world (Response 200 (Some both_body))
          = Return (Some (JObj [(''title'', JStr ''B'')]))"
    using tool_strategy_parse_order [OF h1 h2 h3, of arguments_only_world] p2 p3 p4 p5 s2
    by simp
  ultimately show ?thesis using h1 h2 h3 p1 p2 s1 by simp
qed

text \<open>The claim as it is written fails: the response carries a tool call whose arguments
  parse to the summary titled \<open>B\<close>, and the adapter returns the summary titled \<open>A\<close> that it
  parsed from the content.\<close>

theorem tool_call_not_first_counterexample:
  "fst (summarize_with_lmstudio (example_config\<lparr>LM_USE_TOOLS := True\<rparr>) tool_world
          example_article)
     = Inr (Some (JObj [(''title'', JStr ''A'')])) \<and>
   tool_attempt tool_world both_response = Return (Some (JObj [(''title'', JStr ''A'')])) \<and>
   tool_arguments (dict_get both_message ''tool_calls'') = Inr (JStr arguments_text) \<and>
   safe_json_parse tool_world (JStr arguments_text) = JObj [(''title'', JStr ''B'')]"
  by code_simp

section \<open>Configuration errors at startup\<close>

lemma strip_Nil: "strip [] = []"
  by (simp add: strip_def)

text \<open>
  Claim C5, as amended. A missing bot credential (\<open>DISCORD_TOKEN\<close> absent, empty or blank)
  is fatal at startup: \<open>main\<close> prints the diagnostic and exits with status 1 before
  \<open>bot.run\<close>, so before any network activity. A missing search-service key is not: with
  the credential and the other required settings present, \<open>main\<close> starts the bot, and
  every call of \<open>fetch_article\<close> prints a diagnostic and returns \<open>None\<close> at once, sending
  nothing to the search service and leaving the pools as they are.
\<close>

theorem configuration_errors_at_startup:
  "((DISCORD_TOKEN cfg = None \<or> (\<exists>t. DISCORD_TOKEN cfg = Some t \<and> strip t = []))
      \<longrightarrow> main cfg = Exit 1 [Token_not_set]) \<and>
   ((\<exists>t. DISCORD_TOKEN cfg = Some t \<and> strip t \<noteq> []) \<and> missing_keys cfg = []
      \<and> unset (NEWS_API_KEY cfg)
      \<longrightarrow> main cfg = Bot_run \<and>
          fetch_article cfg w recent_urls ps
            = \<lparr>returned = None, pools_after = ps, searched = [], waited = [],
               diagnostics = [News_key_not_set]\<rparr>)"
  by (auto simp: main_def ensure_token_def fetch_article_def strip_Nil)

text \<open>The theorem at the example configuration without its token, with a token that is a
  single no-break space, and without its search key.\<close>

theorem configuration_errors_at_startup_witness:
  "DISCORD_TOKEN (example_config\<lparr>DISCORD_TOKEN := None\<rparr>) = None \<and>
   main (example_config\<lparr>DISCORD_TOKEN := None\<rparr>) = Exit 1 [Token_not_set] \<and>
   strip [CHR 0xA0] = [] \<and>
   main (example_config\<lparr>DISCORD_TOKEN := Some [CHR 0xA0]\<rparr>) = Exit 1 [Token_not_set] \<and>
   unset (NEWS_API_KEY (example_config\<lparr>NEWS_API_KEY := None\<rparr>)) \<and>
   missing_keys (example_config\<lparr>NEWS_API_KEY := None\<rparr>) = [] \<and>
   main (example_config\<lparr>NEWS_API_KEY := None\<rparr>) = Bot_run \<and>
   fetch_article (example_config\<lparr>NEWS_API_KEY := None\<rparr>) example_world {}
       \<lparr>available_queries = [''climate'', ''AI''], used_queries = []\<rparr>
     = \<lparr>returned = None,
        pools_after = \<lparr>available_queries = [''climate'', ''AI''], used_queries = []\<rparr>,
        searched = [], waited = [], diagnostics = [News_key_not_set]\<rparr>"
proof -
  have a: "DISCORD_TOKEN (example_config\<lparr>DISCORD_TOKEN := None\<rparr>) = None" by simp
  have blank: "strip [CHR 0xA0] = []" by code_simp
  have a': "\<exists>t. DISCORD_TOKEN (example_config\<lparr>DISCORD_TOKEN := Some [CHR 0xA0]\<rparr>) = Some t
                \<and> strip t = []"
    using blank by simp
  have b: "\<exists>t. DISCORD_TOKEN (example_config\<lparr>NEWS_API_KEY := None\<rparr>) = Some t \<and> strip t \<noteq> []"
  proof -
    have "strip ''token'' \<noteq> []" by code_simp
    then show ?thesis by (simp add: example_config_def)
  qed
  have c: "missing_keys (example_config\<lparr>NEWS_API_KEY := None\<rparr>) = []" by code_simp
  have d: "unset (NEWS_API_KEY (example_config\<lparr>NEWS_API_KEY := None\<rparr>))"
    by (simp add: unset_def)
  have "main (example_config\<lparr>DISCORD_TOKEN := None\<rparr>) = Exit 1 [Token_not_set]"
    using a configuration_errors_at_startup [of "example_config\<lparr>DISCORD_TOKEN := None\<rparr>"]
    by blast
  moreover have
    "main (example_config\<lparr>DISCORD_TOKEN := Some [CHR 0xA0]\<rparr>) = Exit 1 [Token_not_set]"
    using a'
      configuration_errors_at_startup [of "example_config\<lparr>DISCORD_TOKEN := Some [CHR 0xA0]\<rparr>"]
    by blast
  moreover have
    "main (example_config\<lparr>NEWS_API_KEY := None\<rparr>) = Bot_run \<and>
     fetch_article (example_config\<lparr>NEWS_API_KEY := None\<rparr>) example_world {}
         \<lparr>available_queries = [''climate'', ''AI''], used_queries = []\<rparr>
       = \<lparr>returned = None,
          pools_after = \<lparr>available_queries = [''climate'', ''AI''], used_queries = []\<rparr>,
          searched = [], waited = [], diagnostics = [News_key_not_set]\<rparr>"
    using b c d
      configuration_errors_at_startup [of "example_config\<lparr>NEWS_API_KEY := None\<rparr>"
        example_world "{}" "\<lparr>available_queries = [''climate'', ''AI''], used_queries = []\<rparr>"]
    by blast
  ultimately show ?thesis using a blank c d by blast
qed

text \<open>The claim as it is written fails: with the search-service key missing and every other
  setting present, the process does not exit but starts the bot.\<close>

theorem missing_search_key_counterexample:
  "NEWS_API_KEY (example_config\<lparr>NEWS_API_KEY := None\<rparr>) = None \<and>
   main (example_config\<lparr>NEWS_API_KEY := None\<rparr>) = Bot_run"
  by code_simp

text \<open>\<open>ensure_required\<close> would exit for missing channel identifiers and completion settings,
  but \<open>main\<close> never calls it: with only the token set the bot is started.\<close>

lemma startup_skips_ensure_required:
  "main \<lparr>DISCORD_TOKEN = Some ''token'', ADMIN_CHANNEL_ID = None, POST_CHANNEL_ID = None,
         NEWS_API_KEY = None, LMSTUDIO_BASE_URL = None, LMSTUDIO_MODEL = None,
         LMSTUDIO_API_KEY = None, LM_USE_TOOLS = False\<rparr> = Bot_run \<and>
   ensure_required \<lparr>DISCORD_TOKEN = Some ''token'', ADMIN_CHANNEL_ID = None,
         POST_CHANNEL_ID = None, NEWS_API_KEY = None, LMSTUDIO_BASE_URL = None,
         LMSTUDIO_MODEL = None, LMSTUDIO_API_KEY = None, LM_USE_TOOLS = False\<rparr>
     = Some (1, [Missing_config_keys [''ADMIN_CHANNEL_ID'', ''POST_CHANNEL_ID'',
                   ''LMSTUDIO_BASE_URL'', ''LMSTUDIO_MODEL'']])"
  by code_simp

section \<open>The sleep outside the active hours\<close>

text \<open>From 09:00 on, the computed sleep is the time to the next 09:00; before 09:00 it is a
  day more than that.\<close>

lemma sleep_seconds_evening:
  "9 \<le> hour now \<Longrightarrow> sleep_seconds now = seconds_until_next_nine now"
  by (simp add: sleep_seconds_def next_morning_def timestamp_def Let_def
        seconds_until_next_nine_def)

lemma sleep_seconds_morning:
  "hour now < 9 \<Longrightarrow> sleep_seconds now = seconds_until_next_nine now + 86400"
  by (simp add: sleep_seconds_def next_morning_def timestamp_def Let_def
        seconds_until_next_nine_def)

text \<open>
  Claim C6 says that the sleep computed outside the active hours is the number of seconds
  to the next 09:00, hours 0 to 8 included. The scheduler always takes 09:00 of the day
  after the reading: at 03:00 it computes 108000 seconds (30 hours, which it also logs as
  the time to resuming), while the next 09:00 is 21600 seconds away.
\<close>

theorem sleep_seconds_after_midnight:
  "sleep_seconds \<lparr>day = 0, hour = 3, minute = 0, second = 0\<rparr> = 108000 \<and>
   seconds_until_next_nine \<lparr>day = 0, hour = 3, minute = 0, second = 0\<rparr> = 21600"
  by (simp add: sleep_seconds_def next_morning_def timestamp_def Let_def
        seconds_until_next_nine_def)

text \<open>The rest of what the claim says holds: no sleep is longer than 60 seconds, and the
  loop stops at the first wake at which the clock shows an active hour.\<close>

lemma quiet_sleep_at_most_60:
  "x \<in> set (quiet_sleep hour_at wake remaining) \<Longrightarrow> 0 < x \<and> x \<le> 60"
proof (induction hour_at wake remaining rule: quiet_sleep.induct)
  case (1 hour_at wake remaining)
  show ?case
  proof (cases "remaining > 0")
    case False
    with "1.prems" show ?thesis by (simp add: quiet_sleep.simps)
  next
    case True
    show ?thesis
    proof (cases "9 \<le> hour_at wake \<and> hour_at wake < 22")
      case active: True
      with True "1.prems" show ?thesis
        by (subst (asm) quiet_sleep.simps) (auto simp: min_def split: if_splits)
    next
      case quiet: False
      with True "1.prems" have "x = min 60 remaining \<or>
          x \<in> set (quiet_sleep hour_at (Suc wake) (remaining - 60))"
        by (subst (asm) quiet_sleep.simps) (auto split: if_splits)
      then show ?thesis
        using "1.IH" [OF True quiet] True by (auto simp: min_def)
    qed
  qed
qed

lemma quiet_sleep_breaks_early:
  "remaining > 0 \<Longrightarrow> 9 \<le> hour_at wake \<Longrightarrow> hour_at wake < 22 \<Longrightarrow>
   quiet_sleep hour_at wake remaining = [min 60 remaining]"
  by (subst quiet_sleep.simps) simp

section \<open>At-most-once moderation\<close>

lemma other_neq [simp]: "other h \<noteq> h" "h \<noteq> other h"
  by (cases h; simp)+

lemma other_other [simp]: "other (other h) = h"
  by (cases h) simp_all

lemma all_handlers: "(\<forall>x. P x) = (P h \<and> P (other h))"
  by (cases h) (metis handler.exhaust other.simps)+

lemma ex_handlers: "(\<exists>x. P x) = (P h \<or> P (other h))"
  by (cases h) (metis handler.exhaust other.simps)+

lemma consistent_pending: "consistent pressed channel_ok a queue (pending queue)"
  by (simp add: consistent_def pending_def)

lemma step_Clicked:
  assumes "consistent pressed channel_ok a queue s"
    and "a \<in> set queue" and "a \<notin> set (remove1 a queue)" and "at s h = Clicked"
  shows "consistent pressed channel_ok a queue (scheduled pressed channel_ok a s h)"
  using assms
  unfolding consistent_def scheduled_def handler_step_def move_def
      all_handlers [of _ h] ex_handlers [of _ h]
  by (clarsimp split: button.splits)

lemma step_Deferred:
  assumes "consistent pressed channel_ok a queue s"
    and "a \<in> set queue" and "a \<notin> set (remove1 a queue)" and "at s h = Deferred"
  shows "consistent pressed channel_ok a queue (scheduled pressed channel_ok a s h)"
  using assms
  unfolding consistent_def scheduled_def handler_step_def move_def
      all_handlers [of _ h] ex_handlers [of _ h]
  by (clarsimp split: button.splits)

lemma step_In_lock:
  assumes "consistent pressed channel_ok a queue s"
    and "a \<in> set queue" and "a \<notin> set (remove1 a queue)" and "at s h = In_lock"
  shows "consistent pressed channel_ok a queue (scheduled pressed channel_ok a s h)"
  using assms
  unfolding consistent_def scheduled_def handler_step_def move_def
      all_handlers [of _ h] ex_handlers [of _ h]
  by (clarsimp split: button.splits)

lemma step_Found:
  assumes "consistent pressed channel_ok a queue s"
    and "a \<in> set queue" and "a \<notin> set (remove1 a queue)" and "at s h = Found"
  shows "consistent pressed channel_ok a queue (scheduled pressed channel_ok a s h)"
  using assms
  unfolding consistent_def scheduled_def handler_step_def move_def
      all_handlers [of _ h] ex_handlers [of _ h]
  by (clarsimp split: button.splits)

lemma step_Removed:
  assumes "consistent pressed channel_ok a queue s"
    and "a \<in> set queue" and "a \<notin> set (remove1 a queue)" and "at s h = Removed"
  shows "consistent pressed channel_ok a queue (scheduled pressed channel_ok a s h)"
  using assms
  unfolding consistent_def scheduled_def handler_step_def move_def
      all_handlers [of _ h] ex_handlers [of _ h]
  by (clarsimp split: button.splits)

lemma step_Missing:
  assumes "consistent pressed channel_ok a queue s"
    and "a \<in> set queue" and "a \<notin> set (remove1 a queue)" and "at s h = Missing"
  shows "consistent pressed channel_ok a queue (scheduled pressed channel_ok a s h)"
  using assms
  unfolding consistent_def scheduled_def handler_step_def move_def
      all_handlers [of _ h] ex_handlers [of _ h]
  by (cases "at s (other h)"; clarsimp split: button.splits)

lemma step_Notified:
  assumes "consistent pressed channel_ok a queue s"
    and "a \<in> set queue" and "a \<notin> set (remove1 a queue)" and "at s h = Notified"
  shows "consistent pressed channel_ok a queue (scheduled pressed channel_ok a s h)"
  using assms
  unfolding consistent_def scheduled_def handler_step_def move_def
      all_handlers [of _ h] ex_handlers [of _ h]
  by (clarsimp split: button.splits)

lemma step_Unlocked:
  assumes "consistent pressed channel_ok a queue s"
    and "a \<in> set queue" and "a \<notin> set (remove1 a queue)" and "at s h = Unlocked"
  shows "consistent pressed channel_ok a queue (scheduled pressed channel_ok a s h)"
  using assms
  unfolding consistent_def scheduled_def handler_step_def move_def
      all_handlers [of _ h] ex_handlers [of _ h]
  by (clarsimp split: button.splits)

lemma step_Acknowledged:
  assumes "consistent pressed channel_ok a queue s"
    and "a \<in> set queue" and "a \<notin> set (remove1 a queue)" and "at s h = Acknowledged"
  shows "consistent pressed channel_ok a queue (scheduled pressed channel_ok a s h)"
  using assms
  unfolding consistent_def scheduled_def handler_step_def move_def
      all_handlers [of _ h] ex_handlers [of _ h]
  by (cases "at s (other h)"; clarsimp split: button.splits)

lemma step_Edited:
  assumes "consistent pressed channel_ok a queue s"
    and "a \<in> set queue" and "a \<notin> set (remove1 a queue)" and "at s h = Edited"
  shows "consistent pressed channel_ok a queue (scheduled pressed channel_ok a s h)"
  using assms
  unfolding consistent_def scheduled_def handler_step_def move_def
      all_handlers [of _ h] ex_handlers [of _ h]
  by (cases "at s (other h)"; clarsimp split: button.splits)

lemma step_Crashed:
  assumes "consistent pressed channel_ok a queue s"
    and "a \<in> set queue" and "a \<notin> set (remove1 a queue)" and "at s h = Crashed"
  shows "consistent pressed channel_ok a queue (scheduled pressed channel_ok a s h)"
  using assms
  unfolding consistent_def scheduled_def handler_step_def move_def
      all_handlers [of _ h] ex_handlers [of _ h]
  by (clarsimp split: button.splits)

lemma step_Ended:
  assumes "consistent pressed channel_ok a queue s" and "at s h = Ended e"
  shows "consistent pressed channel_ok a queue (scheduled pressed channel_ok a s h)"
proof -
  from assms(2) have "scheduled pressed channel_ok a s h = s"
    by (simp add: scheduled_def handler_step_def)
  with assms(1) show ?thesis by simp
qed

lemma consistent_step:
  assumes "consistent pressed channel_ok a queue s"
    and "a \<in> set queue" and "a \<notin> set (remove1 a queue)"
  shows "consistent pressed channel_ok a queue (scheduled pressed channel_ok a s h)"
proof (cases "at s h")
  case Clicked
  with assms show ?thesis by (rule step_Clicked)
next
  case Deferred
  with assms show ?thesis by (rule step_Deferred)
next
  case In_lock
  with assms show ?thesis by (rule step_In_lock)
next
  case Found
  with assms show ?thesis by (rule step_Found)
next
  case Removed
  with assms show ?thesis by (rule step_Removed)
next
  case Missing
  with assms show ?thesis by (rule step_Missing)
next
  case Notified
  with assms show ?thesis by (rule step_Notified)
next
  case Unlocked
  with assms show ?thesis by (rule step_Unlocked)
next
  case Acknowledged
  with assms show ?thesis by (rule step_Acknowledged)
next
  case Edited
  with assms show ?thesis by (rule step_Edited)
next
  case Crashed
  with assms show ?thesis by (rule step_Crashed)
next
  case (Ended e)
  with assms(1) show ?thesis by (rule step_Ended)
qed

lemma consistent_run:
  assumes "consistent pressed channel_ok a queue s"
    and "a \<in> set queue" and "a \<notin> set (remove1 a queue)"
  shows "consistent pressed channel_ok a queue (run_handlers pressed channel_ok a schedule s)"
  using assms(1) unfolding run_handlers_def
proof (induction schedule arbitrary: s)
  case Nil
  then show ?case by simp
next
  case (Cons h schedule)
  from Cons.prems assms(2,3)
  have "consistent pressed channel_ok a queue (scheduled pressed channel_ok a s h)"
    by (rule consistent_step)
  then show ?case using Cons.IH by simp
qed

lemma once_in_queue:
  assumes "count_list queue a = 1"
  shows "a \<in> set queue" and "a \<notin> set (remove1 a queue)"
proof -
  show in_q: "a \<in> set queue"
    using assms count_list_0_iff [of queue a] by auto
  have "count_list (remove1 a queue) a = count_list queue a - 1"
    using in_q by (induction queue) auto
  then show "a \<notin> set (remove1 a queue)"
    using assms count_list_0_iff [of "remove1 a queue" a] by simp
qed

lemma enabled_position:
  assumes "at s h \<noteq> Crashed" and "\<not> has_ended (at s h)"
    and "at s h = Deferred \<longrightarrow> unactioned_articles_lock s = None"
  shows "handler_step pressed channel_ok a h s \<noteq> None"
  using assms by (cases "at s h") (simp_all add: handler_step_def split: button.splits)

lemma holder_not_waiting: "holds_lock p \<Longrightarrow> p \<noteq> Deferred \<and> \<not> has_ended p"
  by (cases p) simp_all

lemma c_lock:
  "consistent pressed channel_ok a queue s \<Longrightarrow>
   (unactioned_articles_lock s = Some h) = holds_lock (at s h)"
  by (simp add: consistent_def)

lemma c_queue:
  "consistent pressed channel_ok a queue s \<Longrightarrow>
   unactioned_articles s = (if \<exists>h. took_effect (at s h) then remove1 a queue else queue)"
  by (simp add: consistent_def)

lemma c_excl:
  "consistent pressed channel_ok a queue s \<Longrightarrow> took_effect (at s h) \<Longrightarrow>
   \<not> took_effect (at s (other h))"
  by (simp add: consistent_def)

lemma c_missed:
  "consistent pressed channel_ok a queue s \<Longrightarrow> missed (at s h) \<Longrightarrow>
   took_effect (at s (other h))"
  by (simp add: consistent_def)

lemma c_crash: "consistent pressed channel_ok a queue s \<Longrightarrow> at s h \<noteq> Crashed"
  by (simp add: consistent_def)

lemma c_removals1:
  "consistent pressed channel_ok a queue s \<Longrightarrow> took_effect (at s h) \<Longrightarrow>
   removals s = [(h, Some h)]"
  by (simp add: consistent_def)

lemma c_removals0:
  "consistent pressed channel_ok a queue s \<Longrightarrow> \<forall>h. \<not> took_effect (at s h) \<Longrightarrow>
   removals s = []"
  by (simp add: consistent_def)

lemma c_notice1:
  "consistent pressed channel_ok a queue s \<Longrightarrow> saw_notice (at s h) \<Longrightarrow>
   already_moderated s = [h]"
  by (simp add: consistent_def)

lemma c_posts1:
  "consistent pressed channel_ok a queue s \<Longrightarrow> at s h = Ended True \<Longrightarrow>
   public_posts s = (if pressed h = Accept \<and> channel_ok then [a] else [])"
  by (simp add: consistent_def)

lemma c_posts0:
  "consistent pressed channel_ok a queue s \<Longrightarrow> \<forall>h. at s h \<noteq> Ended True \<Longrightarrow>
   public_posts s = []"
  by (simp add: consistent_def)

lemma some_handler_enabled:
  assumes "consistent pressed channel_ok a queue s" and "\<not> both_ended s"
  shows "\<exists>h. handler_step pressed channel_ok a h s \<noteq> None"
proof (cases "unactioned_articles_lock s")
  case None
  from assms(2) obtain h where "\<not> has_ended (at s h)"
    by (auto simp: both_ended_def)
  moreover from assms(1) have "at s h \<noteq> Crashed" by (rule c_crash)
  ultimately have "handler_step pressed channel_ok a h s \<noteq> None"
    using None by (intro enabled_position) simp_all
  then show ?thesis ..
next
  case (Some x)
  with c_lock [OF assms(1), of x] have "holds_lock (at s x)" by simp
  then have "at s x \<noteq> Deferred \<and> \<not> has_ended (at s x)" by (rule holder_not_waiting)
  moreover from assms(1) have "at s x \<noteq> Crashed" by (rule c_crash)
  ultimately have "handler_step pressed channel_ok a x s \<noteq> None"
    by (intro enabled_position) simp_all
  then show ?thesis ..
qed

lemma step_decreases:
  assumes "handler_step pressed channel_ok a h s = Some s'"
  shows "steps_remaining s' < steps_remaining s"
  using assms
  by (cases h; cases "at s h")
     (auto simp: handler_step_def move_def steps_remaining_def split: if_splits button.splits)

lemma can_complete:
  assumes "a \<in> set queue" and "a \<notin> set (remove1 a queue)"
  shows "consistent pressed channel_ok a queue s \<Longrightarrow>
         \<exists>more. both_ended (run_handlers pressed channel_ok a more s)"
proof (induction "steps_remaining s" arbitrary: s rule: less_induct)
  case less
  show ?case
  proof (cases "both_ended s")
    case True
    then have "both_ended (run_handlers pressed channel_ok a [] s)"
      by (simp add: run_handlers_def)
    then show ?thesis ..
  next
    case False
    with less.prems obtain h s' where step: "handler_step pressed channel_ok a h s = Some s'"
      using some_handler_enabled by blast
    then have s': "scheduled pressed channel_ok a s h = s'" by (simp add: scheduled_def)
    have "consistent pressed channel_ok a queue s'"
      using consistent_step [OF less.prems assms, of h] s' by simp
    moreover have "steps_remaining s' < steps_remaining s" using step by (rule step_decreases)
    ultimately obtain more where "both_ended (run_handlers pressed channel_ok a more s')"
      using less.hyps by blast
    then have "both_ended (run_handlers pressed channel_ok a (h # more) s)"
      using s' by (simp add: run_handlers_def)
    then show ?thesis ..
  qed
qed

lemma run_handlers_append:
  "run_handlers pressed channel_ok a (xs @ ys) s
     = run_handlers pressed channel_ok a ys (run_handlers pressed channel_ok a xs s)"
  by (simp add: run_handlers_def)

lemma has_ended_iff: "has_ended p = (\<exists>e. p = Ended e)"
  by (cases p) simp_all

lemma consistent_removals:
  assumes "consistent pressed channel_ok a queue s"
  shows "removals s = [] \<or> (\<exists>h. removals s = [(h, Some h)])"
proof (cases "\<exists>h. took_effect (at s h)")
  case True
  then obtain h where "took_effect (at s h)" ..
  with assms have "removals s = [(h, Some h)]" by (rule c_removals1)
  then show ?thesis by blast
next
  case False
  then have "\<forall>h. \<not> took_effect (at s h)" by simp
  with assms have "removals s = []" by (rule c_removals0)
  then show ?thesis ..
qed

lemma consistent_posts:
  assumes "consistent pressed channel_ok a queue s"
  shows "public_posts s = [] \<or> public_posts s = [a]"
proof (cases "\<exists>h. at s h = Ended True")
  case True
  then obtain h where "at s h = Ended True" ..
  with assms have "public_posts s = (if pressed h = Accept \<and> channel_ok then [a] else [])"
    by (rule c_posts1)
  then show ?thesis by (simp split: if_splits)
next
  case False
  then have "\<forall>h. at s h \<noteq> Ended True" by simp
  with assms have "public_posts s = []" by (rule c_posts0)
  then show ?thesis ..
qed

lemma consistent_one_effect:
  assumes "consistent pressed channel_ok a queue s" and "both_ended s"
  shows "\<exists>h. at s h = Ended True \<and> at s (other h) = Ended False"
proof -
  from assms(2) obtain e1 e2 where e: "at s First = Ended e1" "at s Second = Ended e2"
    by (auto simp: both_ended_def has_ended_iff)
  show ?thesis
  proof (cases e1)
    case True
    with e have "took_effect (at s First)" by simp
    with assms(1) have "\<not> took_effect (at s (other First))" by (rule c_excl)
    with e have "\<not> e2" by simp
    with True e have "at s First = Ended True \<and> at s (other First) = Ended False" by simp
    then show ?thesis ..
  next
    case False
    with e have "missed (at s First)" by simp
    with assms(1) have "took_effect (at s (other First))" by (rule c_missed)
    with e have "e2" by simp
    with False e have "at s Second = Ended True \<and> at s (other Second) = Ended False" by simp
    then show ?thesis ..
  qed
qed

lemma consistent_ended:
  assumes "consistent pressed channel_ok a queue s" and "both_ended s"
  shows "\<exists>h. at s h = Ended True \<and> at s (other h) = Ended False \<and>
             removals s = [(h, Some h)] \<and> already_moderated s = [other h] \<and>
             public_posts s = (if pressed h = Accept \<and> channel_ok then [a] else []) \<and>
             unactioned_articles s = remove1 a queue \<and> unactioned_articles_lock s = None"
proof -
  from consistent_one_effect [OF assms] obtain h where
    h: "at s h = Ended True" "at s (other h) = Ended False" by blast
  from h have eff: "took_effect (at s h)" and seen: "saw_notice (at s (other h))" by simp_all
  have "removals s = [(h, Some h)]" using assms(1) eff by (rule c_removals1)
  moreover have "already_moderated s = [other h]" using assms(1) seen by (rule c_notice1)
  moreover have "public_posts s = (if pressed h = Accept \<and> channel_ok then [a] else [])"
    using assms(1) h(1) by (rule c_posts1)
  moreover have "unactioned_articles s = remove1 a queue"
    using c_queue [OF assms(1)] eff by auto
  moreover have "unactioned_articles_lock s = None"
  proof (cases "unactioned_articles_lock s")
    case None
    then show ?thesis .
  next
    case (Some x)
    with c_lock [OF assms(1), of x] have "holds_lock (at s x)" by simp
    moreover have "x = h \<or> x = other h" by (cases x; cases h) simp_all
    ultimately show ?thesis using h by auto
  qed
  ultimately show ?thesis using h by blast
qed

text \<open>
  Claim C3. Let an article be in the moderation queue exactly once, and let two moderation
  actions on it (each Accept or Reject) be handled, their steps interleaved in any order,
  up to any moment. Then the article has been removed at most once, by a handler that
  held the queue lock at the removal, and at most one publication has been made. Once both
  handlers have returned, exactly one action has taken effect: that handler removed the
  article while holding the lock and, when its button was Accept and the public channel
  resolves, made the one publication; the other handler was sent the already-moderated
  notice and did nothing else; the queue is the original one without the article and the
  lock is free. Whatever has happened so far, the steps can be continued until both
  handlers have returned: no order of steps blocks them.
\<close>

theorem at_most_once_moderation:
  assumes "count_list queue a = 1"
    and "s = run_handlers pressed channel_ok a schedule (pending queue)"
  shows "(removals s = [] \<or> (\<exists>h. removals s = [(h, Some h)])) \<and>
         (public_posts s = [] \<or> public_posts s = [a]) \<and>
         (both_ended s \<longrightarrow>
            (\<exists>h. at s h = Ended True \<and> at s (other h) = Ended False \<and>
                 removals s = [(h, Some h)] \<and> already_moderated s = [other h] \<and>
                 public_posts s = (if pressed h = Accept \<and> channel_ok then [a] else []) \<and>
                 unactioned_articles s = remove1 a queue \<and>
                 unactioned_articles_lock s = None)) \<and>
         (\<exists>more. both_ended (run_handlers pressed channel_ok a (schedule @ more)
                                (pending queue)))"
proof -
  note once = once_in_queue [OF assms(1)]
  have c: "consistent pressed channel_ok a queue s"
    unfolding assms(2) using consistent_pending once by (rule consistent_run)
  have "\<exists>more. both_ended (run_handlers pressed channel_ok a more s)"
    using once c by (rule can_complete)
  then have "\<exists>more. both_ended (run_handlers pressed channel_ok a (schedule @ more)
                                  (pending queue))"
    by (simp add: run_handlers_append assms(2))
  then show ?thesis
    using consistent_removals [OF c] consistent_posts [OF c] consistent_ended [OF c]
    by blast
qed

text \<open>The theorem at the example article as the only entry of the queue, Accept and Reject
  pressed, and an order of steps in which the Reject handler wins the lock.\<close>

theorem at_most_once_moderation_witness:
  "count_list [example_article] example_article = 1 \<and>
   both_ended (run_handlers example_presses True example_article example_schedule
                 (pending [example_article])) \<and>
   (\<exists>h. at (run_handlers example_presses True example_article example_schedule
               (pending [example_article])) h = Ended True \<and>
        at (run_handlers example_presses True example_article example_schedule
               (pending [example_article])) (other h) = Ended False \<and>
        removals (run_handlers example_presses True example_article example_schedule
               (pending [example_article])) = [(h, Some h)] \<and>
        already_moderated (run_handlers example_presses True example_article example_schedule
               (pending [example_article])) = [other h] \<and>
        unactioned_articles (run_handlers example_presses True example_article
               example_schedule (pending [example_article])) = [])"
proof -
  have h1: "count_list [example_article] example_article = 1" by simp
  have h2: "both_ended (run_handlers example_presses True example_article example_schedule
                 (pending [example_article]))"
    by code_simp
  from at_most_once_moderation [OF h1 refl, of example_presses True example_schedule] h2
  have "\<exists>h. at (run_handlers example_presses True example_article example_schedule
               (pending [example_article])) h = Ended True \<and>
        at (run_handlers example_presses True example_article example_schedule
               (pending [example_article])) (other h) = Ended False \<and>
        removals (run_handlers example_presses True example_article example_schedule
               (pending [example_article])) = [(h, Some h)] \<and>
        already_moderated (run_handlers example_presses True example_article example_schedule
               (pending [example_article])) = [other h] \<and>
        unactioned_articles (run_handlers example_presses True example_article
               example_schedule (pending [example_article])) = []"
    by auto
  with h1 h2 show ?thesis by blast
qed

text \<open>In that run it is the Reject that took effect: the Accept handler was sent the
  notice and nothing was published.\<close>

lemma example_run_outcome:
  "at (run_handlers example_presses True example_article example_schedule
         (pending [example_article])) Second = Ended True \<and>
   at (run_handlers example_presses True example_article example_schedule
         (pending [example_article])) First = Ended False \<and>
   already_moderated (run_handlers example_presses True example_article example_schedule
         (pending [example_article])) = [First] \<and>
   removals (run_handlers example_presses True example_article example_schedule
         (pending [example_article])) = [(Second, Some Second)] \<and>
   public_posts (run_handlers example_presses True example_article example_schedule
         (pending [example_article])) = []"
  by code_simp

end
